theory Spec2Isabelle
  imports Complex_Main "HOL-Library.Log_Nat"
begin

text \<open>
  The program \<open>main.py\<close> asks for a place, finds its coordinates and its time zone,
  fetches the current position of the International Space Station and its next visible
  passes from the N2YO service, and prints them.  Its functions are embedded below under
  their own names: pure ones as functions on Python values, the ones that print or call a
  service as computations that leave a trace of events and either raise or return.  The
  answers of the outside world (standard input, the environment, the geocoder, the
  time-zone finder, the two HTTP requests) and the library functions whose results are only
  passed on are parameters.
\<close>

section \<open>Python floats\<close>

text \<open>
  A finite Python float is an IEEE-754 binary64 number; it is represented here by its exact
  rational value.  Arithmetic on floats computes the exact rational result and rounds it to
  the nearest binary64 number, ties to the even significand (\<open>double_round\<close>).  The
  non-finite floats \<open>nan\<close> and \<open>inf\<close> are outside the model.
\<close>

text \<open>Python's \<open>round(x)\<close> with one argument: the nearest integer, ties to the even one.\<close>

definition py_round :: "rat \<Rightarrow> int" where
  "py_round x =
     (let f = \<lfloor>x\<rfloor>; d = x - of_int f
      in if d < 1 / 2 then f
         else if 1 / 2 < d then f + 1
         else if even f then f else f + 1)"

text \<open>For \<open>0 < x\<close>: the exponent \<open>e\<close> of the binade of \<open>x\<close>, \<open>2\<^sup>e \<le> x < 2\<^sup>e\<^sup>+\<^sup>1\<close>.\<close>

definition floor_log2 :: "rat \<Rightarrow> int" where
  "floor_log2 x =
     (if 1 \<le> x then bitlen \<lfloor>x\<rfloor> - 1 else - bitlen (\<lceil>1 / x\<rceil> - 1))"

text \<open>
  Rounding of an exact result to binary64: 53 significant bits in the binade of \<open>x\<close>,
  and the fixed spacing \<open>2\<^sup>-\<^sup>1\<^sup>0\<^sup>7\<^sup>4\<close> below \<open>2\<^sup>-\<^sup>1\<^sup>0\<^sup>2\<^sup>2\<close> (subnormal numbers).
\<close>

definition double_round :: "rat \<Rightarrow> rat" where
  "double_round x =
     (if x = 0 then 0
      else let e = max (floor_log2 \<bar>x\<bar>) (- 1022);
               u = 2 powi (e - 52)
           in of_int (py_round (x / u)) * u)"

definition max_double :: rat where
  "max_double = (2 ^ 53 - 1) * 2 ^ 971"

definition is_double :: "rat \<Rightarrow> bool" where
  "is_double x \<longleftrightarrow> double_round x = x \<and> \<bar>x\<bar> \<le> max_double"

text \<open>The float denoted by a decimal literal of the program text, such as \<open>22.5\<close>.\<close>

definition float_literal :: "rat \<Rightarrow> rat" where
  "float_literal x = double_round x"

text \<open>
  \<open>x / y\<close> on floats, for \<open>y \<noteq> 0\<close>.  The program only divides by \<open>22.5\<close>, where the
  quotient is smaller than the dividend and cannot overflow.
\<close>

definition float_truediv :: "rat \<Rightarrow> rat \<Rightarrow> rat" where
  "float_truediv x y = double_round (x / y)"

text \<open>
  \<open>x % y\<close> on floats for \<open>0 < y\<close> (CPython's \<open>float_rem\<close>): the C function \<open>fmod\<close>
  is exact and has the sign of \<open>x\<close>; a negative remainder is moved into \<open>[0, y]\<close> by a
  float addition, which rounds.
\<close>

definition c_fmod :: "rat \<Rightarrow> rat \<Rightarrow> rat" where
  "c_fmod x y = (if 0 \<le> x then x - y * of_int \<lfloor>x / y\<rfloor> else - (- x - y * of_int \<lfloor>- x / y\<rfloor>))"

definition float_mod :: "rat \<Rightarrow> rat \<Rightarrow> rat" where
  "float_mod x y = (let m = c_fmod x y in if m < 0 then double_round (m + y) else m)"

section \<open>Python values and exceptions\<close>

text \<open>
  The values that \<open>response.json()\<close> can deliver: \<open>None\<close>, booleans, integers, floats,
  strings, lists and dictionaries with string keys.  A dictionary is an association list;
  \<open>map_of\<close> looks a key up.  A string is a list of characters, each standing for the
  code point of its number; code points from 256 on are outside the model.
\<close>

datatype pyval =
    PNone
  | PBool bool
  | PInt int
  | PFloat rat
  | PStr string
  | PList "pyval list"
  | PDict "(string \<times> pyval) list"

text \<open>
  The exception classes that occur.  \<open>ConnectionError\<close>, \<open>HTTPError\<close> and
  \<open>JSONDecodeError\<close> are the ones of \<open>requests.exceptions\<close>, all subclasses of
  \<open>RequestException\<close>; \<open>JSONDecodeError\<close> is a \<open>ValueError\<close> as well.
  \<open>GeocoderServiceError\<close> stands for the errors of \<open>geopy.exc\<close> other than the two the
  program imports.  \<open>UnknownTimeZoneError\<close> is what \<open>pytz.timezone\<close> raises for an
  identifier it does not know.  \<open>RecursionError\<close> is what the JSON parser raises for a
  document nested too deeply.
\<close>

datatype exn =
    ConnectionError
  | HTTPError
  | JSONDecodeError
  | KeyError
  | IndexError
  | ValueError
  | TypeError
  | OverflowError
  | EOFError
  | GeocoderTimedOut
  | GeocoderUnavailable
  | GeocoderServiceError
  | UnknownTimeZoneError
  | AttributeError
  | RecursionError

definition is_RequestException :: "exn \<Rightarrow> bool" where
  "is_RequestException e \<longleftrightarrow> e = ConnectionError \<or> e = HTTPError \<or> e = JSONDecodeError"

definition is_ValueError :: "exn \<Rightarrow> bool" where
  "is_ValueError e \<longleftrightarrow> e = ValueError \<or> e = JSONDecodeError"

text \<open>Truth value of an object, as \<open>if x:\<close>, \<open>not x\<close> and \<open>x or y\<close> test it.\<close>

fun truthy :: "pyval \<Rightarrow> bool" where
  "truthy PNone = False"
| "truthy (PBool b) = b"
| "truthy (PInt n) = (n \<noteq> 0)"
| "truthy (PFloat x) = (x \<noteq> 0)"
| "truthy (PStr s) = (s \<noteq> [])"
| "truthy (PList xs) = (xs \<noteq> [])"
| "truthy (PDict kvs) = (kvs \<noteq> [])"

fun contains_str :: "string \<Rightarrow> string \<Rightarrow> bool" where
  "contains_str s [] = (s = [])"
| "contains_str s (c # cs) = (take (length s) (c # cs) = s \<or> contains_str s cs)"

text \<open>
  \<open>key in data\<close> for a string \<open>key\<close>: a key of a dictionary, an element of a list, a
  substring of a string; the other values are not iterable.
\<close>

fun py_contains :: "string \<Rightarrow> pyval \<Rightarrow> exn + bool" where
  "py_contains k (PDict kvs) = Inr (map_of kvs k \<noteq> None)"
| "py_contains k (PList xs) = Inr (PStr k \<in> set xs)"
| "py_contains k (PStr s) = Inr (contains_str k s)"
| "py_contains k v = Inl TypeError"

text \<open>\<open>data[key]\<close> for a string \<open>key\<close>.\<close>

fun py_getitem :: "pyval \<Rightarrow> string \<Rightarrow> exn + pyval" where
  "py_getitem (PDict kvs) k = (case map_of kvs k of None \<Rightarrow> Inl KeyError | Some v \<Rightarrow> Inr v)"
| "py_getitem v k = Inl TypeError"

text \<open>
  \<open>data[0]\<close>.  The keys of a dictionary from JSON are strings, so \<open>0\<close> is never one
  of them.
\<close>

fun py_getitem0 :: "pyval \<Rightarrow> exn + pyval" where
  "py_getitem0 (PList []) = Inl IndexError"
| "py_getitem0 (PList (x # xs)) = Inr x"
| "py_getitem0 (PStr []) = Inl IndexError"
| "py_getitem0 (PStr (c # cs)) = Inr (PStr [c])"
| "py_getitem0 (PDict kvs) = Inl KeyError"
| "py_getitem0 v = Inl TypeError"

text \<open>
  \<open>float(v)\<close>.  An integer too large for a float raises \<open>OverflowError\<close>; how a string
  is read (\<open>None\<close>: it is no number, \<open>ValueError\<close>) is a parameter.
\<close>

definition int_to_float :: "int \<Rightarrow> exn + rat" where
  "int_to_float n =
     (let x = double_round (of_int n)
      in if max_double < \<bar>x\<bar> then Inl OverflowError else Inr x)"

fun py_float :: "(string \<Rightarrow> rat option) \<Rightarrow> pyval \<Rightarrow> exn + rat" where
  "py_float rd (PFloat x) = Inr x"
| "py_float rd (PInt n) = int_to_float n"
| "py_float rd (PBool b) = Inr (if b then 1 else 0)"
| "py_float rd (PStr s) = (case rd s of None \<Rightarrow> Inl ValueError | Some x \<Rightarrow> Inr x)"
| "py_float rd v = Inl TypeError"

section \<open>Cardinal direction\<close>

definition directions :: "string list" where
  "directions = [''N'', ''NNE'', ''NE'', ''ENE'', ''E'', ''ESE'', ''SE'', ''SSE'',
                 ''S'', ''SSW'', ''SW'', ''WSW'', ''W'', ''WNW'', ''NW'', ''NNW'']"

text \<open>\<open>azimuth / 22.5\<close>: an integer (or boolean) operand is converted to a float first.\<close>

fun azimuth_over_22_5 :: "pyval \<Rightarrow> exn + rat" where
  "azimuth_over_22_5 (PFloat x) = Inr (float_truediv x (45 / 2))"
| "azimuth_over_22_5 (PInt n) =
     (case int_to_float n of Inl e \<Rightarrow> Inl e | Inr x \<Rightarrow> Inr (float_truediv x (45 / 2)))"
| "azimuth_over_22_5 (PBool b) = Inr (float_truediv (if b then 1 else 0) (45 / 2))"
| "azimuth_over_22_5 v = Inl TypeError"

text \<open>
  \<open>directions[index]\<close> for an integer index: a negative index counts from the end, an
  index out of range raises \<open>IndexError\<close>.
\<close>

definition list_index :: "'a list \<Rightarrow> int \<Rightarrow> exn + 'a" where
  "list_index xs index =
     (if 0 \<le> index \<and> index < int (length xs) then Inr (xs ! nat index)
      else if - int (length xs) \<le> index \<and> index < 0 then Inr (xs ! nat (int (length xs) + index))
      else Inl IndexError)"

definition get_cardinal_direction :: "pyval \<Rightarrow> exn + string" where
  "get_cardinal_direction azimuth =
     (case azimuth_over_22_5 azimuth of
        Inl e \<Rightarrow> Inl e
      | Inr q \<Rightarrow> (let index = py_round q mod 16 in list_index directions index))"

text \<open>
  The algorithm in the words of the specification, in exact arithmetic: divide by 22.5,
  round to the nearest integer, reduce modulo 16, index the rose.
\<close>

definition cardinal_direction_spec :: "rat \<Rightarrow> string" where
  "cardinal_direction_spec azimuth = directions ! nat (py_round (azimuth / (45 / 2)) mod 16)"

text \<open>
  The boundaries between two sectors of the rose, where the quotient by 22.5 is a tie:
  the odd multiples of 11.25.
\<close>

definition is_sector_boundary :: "rat \<Rightarrow> bool" where
  "is_sector_boundary x \<longleftrightarrow> (let t = x * 4 / 45 in t = of_int \<lfloor>t\<rfloor> \<and> odd \<lfloor>t\<rfloor>)"

section \<open>Console, network and libraries\<close>

text \<open>
  What a run does to the outside world is a trace of events; a computation is the trace it
  leaves together with either the exception it raises or the value it returns.
\<close>

datatype endpoint = Positions | VisualPasses rat rat int int

datatype event =
    Print string
  | Prompt string
  | Sleep nat
  | GeocodeCall string
  | HttpGet endpoint

type_synonym 'a io = "event list \<times> (exn + 'a)"

definition io_return :: "'a \<Rightarrow> 'a io" where
  "io_return x = ([], Inr x)"

definition io_raise :: "exn \<Rightarrow> 'a io" where
  "io_raise e = ([], Inl e)"

definition io_lift :: "exn + 'a \<Rightarrow> 'a io" where
  "io_lift r = ([], r)"

definition io_emit :: "event \<Rightarrow> unit io" where
  "io_emit ev = ([ev], Inr ())"

definition io_bind :: "'a io \<Rightarrow> ('a \<Rightarrow> 'b io) \<Rightarrow> 'b io" where
  "io_bind m f =
     (case m of
        (t, Inl e) \<Rightarrow> (t, Inl e)
      | (t, Inr x) \<Rightarrow> (case f x of (t', r) \<Rightarrow> (t @ t', r)))"

definition io_then :: "unit io \<Rightarrow> 'b io \<Rightarrow> 'b io" where
  "io_then m n = io_bind m (\<lambda>_. n)"

text \<open>\<open>try: m except ...: h\<close>; the handler re-raises what no clause matches.\<close>

definition io_catch :: "'a io \<Rightarrow> (exn \<Rightarrow> 'a io) \<Rightarrow> 'a io" where
  "io_catch m h =
     (case m of
        (t, Inl e) \<Rightarrow> (case h e of (t', r) \<Rightarrow> (t @ t', r))
      | (t, Inr x) \<Rightarrow> (t, Inr x))"

definition sum_bind :: "exn + 'a \<Rightarrow> ('a \<Rightarrow> exn + 'b) \<Rightarrow> exn + 'b" where
  "sum_bind r f = (case r of Inl e \<Rightarrow> Inl e | Inr x \<Rightarrow> f x)"

text \<open>
  The library functions whose results the program only passes on: how values and
  exceptions are printed, how a string is read as a float, and the time-zone database and
  calendar of \<open>pytz\<close> and \<open>datetime\<close>.  \<open>pytz_timezone\<close> is \<open>pytz.timezone\<close>
  (\<open>None\<close>: the identifier is unknown, \<open>UnknownTimeZoneError\<close>);
  \<open>fromtimestamp_utc v\<close> is \<open>datetime.fromtimestamp(v, tz=pytz.UTC)\<close>;
  \<open>pytz_exceptions\<close> gives the classes that the module \<open>pytz.exceptions\<close> defines, by
  name, each as the set of exceptions that are its instances.
\<close>

record ('tz, 'dt) pylib =
  str_of :: "pyval \<Rightarrow> string"
  str_of_exn :: "exn \<Rightarrow> string"
  format_fixed :: "nat \<Rightarrow> rat \<Rightarrow> string"
  float_of_str :: "string \<Rightarrow> rat option"
  pytz_timezone :: "string \<Rightarrow> 'tz option"
  pytz_exceptions :: "string \<Rightarrow> (exn \<Rightarrow> bool) option"
  fromtimestamp_utc :: "pyval \<Rightarrow> exn + 'dt"
  astimezone :: "'dt \<Rightarrow> 'tz \<Rightarrow> 'dt"
  strftime :: "'dt \<Rightarrow> string \<Rightarrow> string"

text \<open>
  The module \<open>pytz.exceptions\<close> as the library ships it: \<open>Error\<close> is the base class,
  and there is no attribute \<open>PytzError\<close>.
\<close>

definition pytz_exceptions_module :: "string \<Rightarrow> (exn \<Rightarrow> bool) option" where
  "pytz_exceptions_module name =
     (if name = ''Error'' \<or> name = ''UnknownTimeZoneError'' then Some (\<lambda>e. e = UnknownTimeZoneError)
      else if name = ''InvalidTimeError'' \<or> name = ''AmbiguousTimeError''
              \<or> name = ''NonExistentTimeError'' then Some (\<lambda>e. False)
      else None)"

text \<open>
  What the outside world answers in one run.  The reply to an HTTP request is no reply at
  all, or a status together with what \<open>response.json()\<close> makes of the body: the parsed
  value, or the exception of the parser (\<open>JSONDecodeError\<close> for a body that is not JSON;
  \<open>ValueError\<close> for an integer literal longer than the interpreter converts;
  \<open>RecursionError\<close>).  \<open>timezone_at\<close> is the time-zone database, consulted for
  coordinates that are in range.
\<close>

datatype geo_reply = GeoFound rat rat string | GeoNone | GeoRaises exn

datatype http_reply = NoReply | Reply nat "exn + pyval"

record world =
  environ_api_key :: "string option"
  stdin :: "string list"
  geocode :: "string \<Rightarrow> geo_reply"
  timezone_at :: "rat \<Rightarrow> rat \<Rightarrow> string option"
  positions_reply :: http_reply
  visualpasses_reply :: http_reply

definition nl :: char where
  "nl = CHR 0x0A"

definition degree_sign :: string where
  "degree_sign = [CHR 0xB0]"

text \<open>
  \<open>requests.get(url)\<close>, \<open>response.raise_for_status()\<close> and \<open>response.json()\<close>.
  A reply with a status from 400 to 599 raises \<open>HTTPError\<close>.
\<close>

definition requests_get :: "endpoint \<Rightarrow> http_reply \<Rightarrow> (nat \<times> (exn + pyval)) io" where
  "requests_get url reply =
     io_then (io_emit (HttpGet url))
       (case reply of NoReply \<Rightarrow> io_raise ConnectionError | Reply status body \<Rightarrow> io_return (status, body))"

definition raise_for_status :: "nat \<times> (exn + pyval) \<Rightarrow> unit io" where
  "raise_for_status response =
     (if 400 \<le> fst response \<and> fst response < 600 then io_raise HTTPError else io_return ())"

definition response_json :: "nat \<times> (exn + pyval) \<Rightarrow> pyval io" where
  "response_json response = io_lift (snd response)"

section \<open>The program\<close>

definition DEFAULT_CITY :: string where
  "DEFAULT_CITY = ''Los Angeles''"

definition DEFAULT_latitude :: rat where
  "DEFAULT_latitude = float_literal (34052235 / 1000000)"

definition DEFAULT_longitude :: rat where
  "DEFAULT_longitude = float_literal (- (118243683 / 1000000))"

text \<open>\<open>input(prompt)\<close>: the prompt is shown and the next line of standard input is read.\<close>

definition py_input :: "string \<Rightarrow> string list \<Rightarrow> (string \<times> string list) io" where
  "py_input prompt lines =
     io_then (io_emit (Prompt prompt))
       (case lines of [] \<Rightarrow> io_raise EOFError | l # ls \<Rightarrow> io_return (l, ls))"

text \<open>
  \<open>s.strip()\<close>: the characters that \<open>str.isspace\<close> accepts are removed from both ends;
  below 256 these are the code points 9 to 13, 28 to 32, 133 and 160.
\<close>

definition is_space :: "char \<Rightarrow> bool" where
  "is_space c \<longleftrightarrow> (of_char c :: nat) \<in> {9, 10, 11, 12, 13, 28, 29, 30, 31, 32, 133, 160}"

definition py_strip :: "string \<Rightarrow> string" where
  "py_strip s = rev (dropWhile is_space (rev (dropWhile is_space s)))"

definition get_user_location :: "string list \<Rightarrow> (string option \<times> string list) io" where
  "get_user_location lines =
     io_then (io_emit (Print (nl # ''Enter location details (press Enter for Los Angeles):'')))
    (io_bind (py_input ''City: '' lines) (\<lambda>(l1, lines1).
       let city = py_strip l1 in
       if city = [] then io_return (None, lines1)
       else
         io_bind (py_input ''State (optional, press Enter to skip): '' lines1) (\<lambda>(l2, lines2).
         io_bind (py_input ''Country (optional, press Enter for USA): '' lines2) (\<lambda>(l3, lines3).
           let state = py_strip l2;
               country = (if py_strip l3 = [] then ''USA'' else py_strip l3);
               location = city;
               location = (if state \<noteq> [] then location @ '', '' @ state else location);
               location = (if country \<noteq> [] then location @ '', '' @ country else location)
           in io_return (Some location, lines3)))))"

definition default_location :: "rat \<times> rat \<times> string" where
  "default_location = (DEFAULT_latitude, DEFAULT_longitude, DEFAULT_CITY)"

definition get_city_coordinates ::
  "('tz, 'dt) pylib \<Rightarrow> world \<Rightarrow> string option \<Rightarrow> (rat \<times> rat \<times> string) io" where
  "get_city_coordinates L W location =
     (if location = None \<or> location = Some [] then
        io_then (io_emit (Print (nl # ''Using default location: '' @ DEFAULT_CITY)))
          (io_return default_location)
      else
        io_catch
          (io_then (io_emit (GeocodeCall (the location)))
             (case geocode W (the location) of
                GeoRaises e \<Rightarrow> io_raise e
              | GeoFound lat lng address \<Rightarrow>
                  io_then (io_emit (Print (nl # ''Found location: '' @ address)))
                    (io_return (lat, lng, address))
              | GeoNone \<Rightarrow>
                  io_then (io_emit (Print (nl # ''Could not find coordinates for '' @ the location
                                            @ '', using Los Angeles as default'')))
                    (io_return default_location)))
          (\<lambda>e. if e = GeocoderTimedOut \<or> e = GeocoderUnavailable then
                 io_then (io_emit (Print (nl # ''Error getting coordinates: '' @ str_of_exn L e
                                           @ ''. Using Los Angeles as default'')))
                   (io_return default_location)
               else io_raise e))"

text \<open>
  \<open>TimezoneFinder().timezone_at(lat=latitude, lng=longitude)\<close>: the library refuses
  coordinates out of range with \<open>ValueError\<close> (a latitude outside \<open>[-90, 90]\<close>, a
  longitude outside \<open>[-180, 180]\<close>) and otherwise returns the identifier of the zone or
  \<open>None\<close>.
\<close>

definition tf_timezone_at :: "world \<Rightarrow> rat \<Rightarrow> rat \<Rightarrow> exn + string option" where
  "tf_timezone_at W latitude longitude =
     (if longitude < - 180 \<or> 180 < longitude \<or> latitude < - 90 \<or> 90 < latitude
      then Inl ValueError
      else Inr (timezone_at W latitude longitude))"

definition get_timezone_from_coordinates :: "world \<Rightarrow> rat \<Rightarrow> rat \<Rightarrow> exn + string" where
  "get_timezone_from_coordinates W latitude longitude =
     sum_bind (tf_timezone_at W latitude longitude) (\<lambda>timezone_str.
       Inr (case timezone_str of
              None \<Rightarrow> ''America/Los_Angeles''
            | Some tz \<Rightarrow> if tz \<noteq> [] then tz else ''America/Los_Angeles''))"

type_synonym position = "rat option \<times> rat option \<times> rat option"

definition no_position :: position where
  "no_position = (None, None, None)"

text \<open>The statements of \<open>get_iss_position\<close> after \<open>data = response.json()\<close>.\<close>

definition read_position :: "('tz, 'dt) pylib \<Rightarrow> pyval \<Rightarrow> position io" where
  "read_position L data =
     io_then (io_emit (Print (''API Response: '' @ str_of L data)))
    (io_bind (io_lift (py_contains ''error'' data)) (\<lambda>has_error.
       if has_error then
         io_bind (io_lift (py_getitem data ''error'')) (\<lambda>err.
         io_then (io_emit (Print (''API Error: '' @ str_of L err)))
           (io_return no_position))
       else
         io_bind (io_lift (py_contains ''positions'' data)) (\<lambda>has_positions.
           if \<not> has_positions then
             io_then (io_emit (Print (''Unexpected API response format - '' @ [CHR 0x27] @ ''positions''
                                       @ [CHR 0x27] @ '' key not found'')))
               (io_return no_position)
           else
             io_bind (io_lift (py_getitem data ''positions'')) (\<lambda>ps.
               if \<not> truthy ps then
                 io_then (io_emit (Print ''No position data returned'')) (io_return no_position)
               else
                 io_lift
                   (sum_bind (py_getitem0 ps) (\<lambda>positions.
                    sum_bind (py_getitem positions ''satlatitude'') (\<lambda>v1.
                    sum_bind (py_float (float_of_str L) v1) (\<lambda>lat.
                    sum_bind (py_getitem positions ''satlongitude'') (\<lambda>v2.
                    sum_bind (py_float (float_of_str L) v2) (\<lambda>lng.
                    sum_bind (py_getitem positions ''sataltitude'') (\<lambda>v3.
                    sum_bind (py_float (float_of_str L) v3) (\<lambda>alt.
                      Inr (Some lat, Some lng, Some alt)))))))))))))"

definition get_iss_position :: "('tz, 'dt) pylib \<Rightarrow> world \<Rightarrow> position io" where
  "get_iss_position L W =
     io_then (io_emit (Sleep 1))
       (io_catch
          (io_bind (requests_get Positions (positions_reply W)) (\<lambda>response.
           io_then (raise_for_status response)
          (io_bind (response_json response) (\<lambda>data.
             read_position L data))))
          (\<lambda>e. if is_RequestException e then
                 io_then (io_emit (Print (''Error getting ISS position: '' @ str_of_exn L e)))
                   (io_return no_position)
               else if e = KeyError \<or> e = IndexError then
                 io_then (io_emit (Print (''Error parsing API response: '' @ str_of_exn L e)))
                   (io_return no_position)
               else if is_ValueError e then
                 io_then (io_emit (Print (''Error converting position values: '' @ str_of_exn L e)))
                   (io_return no_position)
               else io_raise e))"

definition get_next_passes ::
  "('tz, 'dt) pylib \<Rightarrow> world \<Rightarrow> rat \<Rightarrow> rat \<Rightarrow> int \<Rightarrow> int \<Rightarrow> pyval option io" where
  "get_next_passes L W lat lng alt days =
     io_catch
       (io_bind (requests_get (VisualPasses lat lng alt days) (visualpasses_reply W)) (\<lambda>response.
        io_then (raise_for_status response)
       (io_bind (response_json response) (\<lambda>data.
        io_bind (io_lift (py_getitem data ''passes'')) (\<lambda>passes.
          io_return (Some passes))))))
       (\<lambda>e. if is_RequestException e then
              io_then (io_emit (Print (''Error getting pass predictions: '' @ str_of_exn L e)))
                (io_return None)
            else io_raise e)"

definition long_format :: string where
  "long_format = ''%Y-%m-%d %I:%M:%S %p %Z''"

definition short_format :: string where
  "short_format = ''%I:%M %p''"

text \<open>The \<open>try\<close> block of \<open>format_pass_info\<close> once the time zone is found.\<close>

definition format_pass_local :: "('tz, 'dt) pylib \<Rightarrow> pyval \<Rightarrow> 'tz \<Rightarrow> exn + string" where
  "format_pass_local L pass_data local_timezone =
     sum_bind (py_getitem pass_data ''startUTC'') (\<lambda>s.
     sum_bind (fromtimestamp_utc L s) (\<lambda>s_utc.
     sum_bind (py_getitem pass_data ''endUTC'') (\<lambda>e.
     sum_bind (fromtimestamp_utc L e) (\<lambda>e_utc.
     sum_bind (py_getitem pass_data ''startAz'') (\<lambda>startAz.
     sum_bind (get_cardinal_direction startAz) (\<lambda>start_dir.
     sum_bind (py_getitem pass_data ''maxEl'') (\<lambda>maxEl.
     sum_bind (py_getitem pass_data ''endAz'') (\<lambda>endAz.
     sum_bind (get_cardinal_direction endAz) (\<lambda>end_dir.
     sum_bind (py_getitem pass_data ''duration'') (\<lambda>duration.
       let start_time = astimezone L s_utc local_timezone;
           end_time = astimezone L e_utc local_timezone
       in Inr (''Start: '' @ strftime L start_time long_format @ [nl]
             @ ''Starting direction: '' @ str_of L startAz @ degree_sign
                 @ '' ('' @ start_dir @ '')'' @ [nl]
             @ ''Maximum Elevation: '' @ str_of L maxEl @ degree_sign @ [nl]
             @ ''Ending direction: '' @ str_of L endAz @ degree_sign
                 @ '' ('' @ end_dir @ '')'' @ [nl]
             @ ''End: '' @ strftime L end_time long_format @ [nl]
             @ ''Duration: '' @ str_of L duration @ '' seconds'' @ [nl]
             @ ''Viewing guide: Look '' @ start_dir @ '' at ''
                 @ strftime L start_time short_format @ '', ''
             @ ''the ISS will rise to '' @ str_of L maxEl @ degree_sign @ '' above horizon ''
             @ ''and set '' @ end_dir)))))))))))"

text \<open>The body of the \<open>except\<close> clause of \<open>format_pass_info\<close>.\<close>

definition format_pass_utc :: "('tz, 'dt) pylib \<Rightarrow> pyval \<Rightarrow> exn + string" where
  "format_pass_utc L pass_data =
     sum_bind (py_getitem pass_data ''startUTC'') (\<lambda>s.
     sum_bind (fromtimestamp_utc L s) (\<lambda>start_time.
     sum_bind (py_getitem pass_data ''endUTC'') (\<lambda>e.
     sum_bind (fromtimestamp_utc L e) (\<lambda>end_time.
       Inr (''Start: '' @ strftime L start_time long_format @ [nl]
          @ ''End: '' @ strftime L end_time long_format @ [nl])))))"

text \<open>
  An exception of the \<open>try\<close> block reaches \<open>except pytz.exceptions.PytzError as e\<close>,
  which first evaluates the attribute \<open>PytzError\<close> of the module: \<open>AttributeError\<close> when
  the module has none.
\<close>

definition format_pass_info :: "('tz, 'dt) pylib \<Rightarrow> pyval \<Rightarrow> string \<Rightarrow> string io" where
  "format_pass_info L pass_data timezone_str =
     io_catch
       (io_lift
          (case pytz_timezone L timezone_str of
             None \<Rightarrow> Inl UnknownTimeZoneError
           | Some local_timezone \<Rightarrow> format_pass_local L pass_data local_timezone))
       (\<lambda>e. case pytz_exceptions L ''PytzError'' of
              None \<Rightarrow> io_raise AttributeError
            | Some PytzError \<Rightarrow>
                if PytzError e then
                  io_then (io_emit (Print (''Timezone error: '' @ str_of_exn L e
                                            @ ''. Falling back to UTC'')))
                    (io_lift (format_pass_utc L pass_data))
                else io_raise e)"

text \<open>\<open>for ... in passes\<close>: what iterating over a value yields.\<close>

fun py_iter :: "pyval \<Rightarrow> exn + pyval list" where
  "py_iter (PList xs) = Inr xs"
| "py_iter (PDict kvs) = Inr (map (\<lambda>kv. PStr (fst kv)) kvs)"
| "py_iter (PStr s) = Inr (map (\<lambda>c. PStr [c]) s)"
| "py_iter v = Inl TypeError"

fun print_passes :: "('tz, 'dt) pylib \<Rightarrow> string \<Rightarrow> int \<Rightarrow> pyval list \<Rightarrow> unit io" where
  "print_passes L timezone_str i [] = io_return ()"
| "print_passes L timezone_str i (pass_data # rest) =
     io_then (io_emit (Print (nl # ''Pass '' @ str_of L (PInt i) @ '':'')))
    (io_bind (format_pass_info L pass_data timezone_str) (\<lambda>text.
     io_then (io_emit (Print text))
       (print_passes L timezone_str (i + 1) rest)))"

definition all_present :: "position \<Rightarrow> bool" where
  "all_present p = (case p of (lat, lng, alt) \<Rightarrow> lat \<noteq> None \<and> lng \<noteq> None \<and> alt \<noteq> None)"

text \<open>The three parts of \<open>main\<close>: location, current position, upcoming passes.\<close>

definition main_location :: "('tz, 'dt) pylib \<Rightarrow> world \<Rightarrow> (rat \<times> rat \<times> string) io" where
  "main_location L W =
     io_bind (get_user_location (stdin W)) (\<lambda>(location, _).
     io_bind (get_city_coordinates L W location) (\<lambda>(latitude, longitude, address).
     io_bind (io_lift (get_timezone_from_coordinates W latitude longitude)) (\<lambda>timezone_str.
       io_then (io_emit (Print (nl # ''Location: '' @ address)))
      (io_then (io_emit (Print (''Coordinates: '' @ format_fixed L 4 latitude @ '', ''
                                 @ format_fixed L 4 longitude)))
      (io_then (io_emit (Print (''Timezone: '' @ timezone_str)))
        (io_return (latitude, longitude, timezone_str)))))))"

definition main_position :: "('tz, 'dt) pylib \<Rightarrow> world \<Rightarrow> unit io" where
  "main_position L W =
     io_then (io_emit (Print (nl # ''Fetching ISS position...'')))
    (io_bind (get_iss_position L W) (\<lambda>p.
       if all_present p then
         (case p of (lat, lng, alt) \<Rightarrow>
            io_then (io_emit (Print (nl # ''Current ISS Position:'')))
           (io_then (io_emit (Print (''Latitude: '' @ format_fixed L 4 (the lat) @ degree_sign)))
           (io_then (io_emit (Print (''Longitude: '' @ format_fixed L 4 (the lng) @ degree_sign)))
                    (io_emit (Print (''Altitude: '' @ format_fixed L 2 (the alt) @ '' km''))))))
       else io_emit (Print ''Unable to fetch current ISS position'')))"

definition main_passes :: "('tz, 'dt) pylib \<Rightarrow> world \<Rightarrow> rat \<Rightarrow> rat \<Rightarrow> string \<Rightarrow> unit io" where
  "main_passes L W latitude longitude timezone_str =
     io_then (io_emit (Print (nl # ''Fetching upcoming passes...'')))
    (io_bind (get_next_passes L W latitude longitude 0 10) (\<lambda>passes.
       if passes \<noteq> None \<and> truthy (the passes) then
         io_then (io_emit (Print (nl # ''Upcoming visible passes:'')))
        (io_bind (io_lift (py_iter (the passes))) (\<lambda>items.
           print_passes L timezone_str 1 items))
       else io_emit (Print ''No upcoming visible passes found or error fetching pass data'')))"

definition main :: "('tz, 'dt) pylib \<Rightarrow> world \<Rightarrow> unit io" where
  "main L W =
     io_bind (main_location L W) (\<lambda>(latitude, longitude, timezone_str).
     io_then (main_position L W)
       (main_passes L W latitude longitude timezone_str))"

text \<open>The \<open>__main__\<close> guard: \<open>N2YO_API_KEY = os.getenv("N2YO_API_KEY")\<close> is tested first.\<close>

definition program :: "('tz, 'dt) pylib \<Rightarrow> world \<Rightarrow> unit io" where
  "program L W =
     (if environ_api_key W = None \<or> environ_api_key W = Some [] then
        io_emit (Print ''Error: N2YO API key not found. Please set the N2YO_API_KEY environment variable.'')
      else main L W)"

text \<open>An exception that nothing catches ends the process with exit status 1.\<close>

definition exit_status :: "unit io \<Rightarrow> nat" where
  "exit_status r = (case snd r of Inl e \<Rightarrow> 1 | Inr u \<Rightarrow> 0)"

text \<open>A library and worlds to run the program on.\<close>

definition stub_lib :: "(string, int) pylib" where
  "stub_lib =
     \<lparr> str_of = (\<lambda>v. case v of PStr s \<Rightarrow> s | _ \<Rightarrow> ''#''),
       str_of_exn = (\<lambda>e. ''error''),
       format_fixed = (\<lambda>n x. ''#''),
       float_of_str = (\<lambda>s. if s = ''1.5'' then Some (3 / 2) else None),
       pytz_timezone = (\<lambda>s. if s = ''America/Los_Angeles'' \<or> s = ''UTC'' then Some s else None),
       pytz_exceptions = pytz_exceptions_module,
       fromtimestamp_utc = (\<lambda>v. case v of PInt n \<Rightarrow> Inr n | _ \<Rightarrow> Inl TypeError),
       astimezone = (\<lambda>d z. d),
       strftime = (\<lambda>d f. ''time'') \<rparr>"

definition quiet_world :: world where
  "quiet_world =
     \<lparr> environ_api_key = Some ''key'',
       stdin = [''''],
       geocode = (\<lambda>q. GeoNone),
       timezone_at = (\<lambda>lat lng. None),
       positions_reply = NoReply,
       visualpasses_reply = NoReply \<rparr>"

definition null_latitude_world :: world where
  "null_latitude_world =
     quiet_world\<lparr>positions_reply :=
       Reply 200 (Inr (PDict [(''positions'',
         PList [PDict [(''satlatitude'', PNone), (''satlongitude'', PFloat 0),
                       (''sataltitude'', PFloat 420)]])]))\<rparr>"

definition position_world :: world where
  "position_world =
     quiet_world\<lparr>positions_reply :=
       Reply 200 (Inr (PDict [(''positions'',
         PList [PDict [(''satlatitude'', PFloat (21 / 2)), (''satlongitude'', PFloat (- 30)),
                       (''sataltitude'', PFloat 420)]])]))\<rparr>"

definition no_passes_field_world :: world where
  "no_passes_field_world =
     quiet_world\<lparr>visualpasses_reply :=
       Reply 200 (Inr (PDict [(''info'', PDict [(''satid'', PInt 25544), (''passescount'', PInt 0)])]))\<rparr>"

definition sample_pass :: pyval where
  "sample_pass =
     PDict [(''startAz'', PFloat 45), (''startUTC'', PInt 1700000000), (''maxEl'', PFloat 60),
            (''endAz'', PFloat 135), (''endUTC'', PInt 1700000300), (''duration'', PInt 300)]"

definition passes_world :: "pyval list \<Rightarrow> world" where
  "passes_world ps =
     quiet_world\<lparr>visualpasses_reply := Reply 200 (Inr (PDict [(''passes'', PList ps)]))\<rparr>"

definition geocoder_error_world :: world where
  "geocoder_error_world = quiet_world\<lparr>geocode := (\<lambda>q. GeoRaises GeocoderServiceError)\<rparr>"

section \<open>Rounding to the nearest integer and to the nearest float\<close>

lemma py_round_cases:
  "(of_int (py_round x) - 1 / 2 < x \<and> x < of_int (py_round x) + 1 / 2)
   \<or> (x = of_int (py_round x) - 1 / 2 \<and> even (py_round x))
   \<or> (x = of_int (py_round x) + 1 / 2 \<and> even (py_round x))"
  unfolding py_round_def Let_def
  by (auto simp: not_less) linarith+

lemma py_round_error: "\<bar>of_int (py_round x) - x\<bar> \<le> 1 / 2"
  using py_round_cases [of x] by linarith

lemma py_round_interval:
  assumes "of_int k - 1 / 2 < x" "x < of_int k + 1 / 2"
  shows "py_round x = k"
proof -
  have "\<lfloor>x\<rfloor> = k \<or> \<lfloor>x\<rfloor> = k - 1" using assms by linarith
  then show ?thesis
  proof
    assume f: "\<lfloor>x\<rfloor> = k"
    then show ?thesis using assms by (simp add: py_round_def Let_def)
  next
    assume f: "\<lfloor>x\<rfloor> = k - 1"
    then have "of_int (k - 1) \<le> x" by (metis of_int_floor_le)
    with assms f show ?thesis by (auto simp: py_round_def Let_def)
  qed
qed

lemma py_round_of_int [simp]: "py_round (of_int n) = n"
  by (simp add: py_round_def)

lemma py_round_add_even: "py_round (x + of_int (2 * m)) = py_round x + 2 * m"
proof -
  have "\<lfloor>x + of_int (2 * m)\<rfloor> = \<lfloor>x\<rfloor> + 2 * m" by (simp only: floor_add_int)
  then show ?thesis by (simp add: py_round_def Let_def)
qed

lemma floor_log2_bounds:
  assumes "0 < x"
  shows "2 powi (floor_log2 x) \<le> x \<and> x < 2 powi (floor_log2 x + 1)"
proof (cases "1 \<le> x")
  case True
  define n where "n = \<lfloor>x\<rfloor>"
  have n: "0 < n" using True by (simp add: n_def)
  from bitlen_bounds [OF n] have b: "2 ^ nat (bitlen n - 1) \<le> n" "n < 2 ^ nat (bitlen n)" by auto
  have b1: "1 \<le> bitlen n" using n by (simp add: bitlen_alt_def)
  have fl: "floor_log2 x = bitlen n - 1" using True by (simp add: floor_log2_def n_def)
  have "(2::rat) powi (bitlen n - 1) = of_int (2 ^ nat (bitlen n - 1))"
    using b1 by (simp add: power_int_def)
  also have "\<dots> \<le> of_int n" using b(1) by (simp only: of_int_le_iff)
  also have "\<dots> \<le> x" by (simp add: n_def)
  finally have lo: "2 powi (floor_log2 x) \<le> x" by (simp add: fl)
  have "x < of_int (2 ^ nat (bitlen n))" using b(2) unfolding n_def by (simp only: floor_less_iff)
  also have "\<dots> = 2 powi (bitlen n)" using b1 by (simp add: power_int_def)
  finally have "x < 2 powi (floor_log2 x + 1)" by (simp add: fl)
  with lo show ?thesis by simp
next
  case False
  define y where "y = 1 / x"
  have y: "1 < y" using False assms by (simp add: y_def)
  define n where "n = \<lceil>y\<rceil> - 1"
  have n: "0 < n" using y unfolding n_def by linarith
  from bitlen_bounds [OF n] have b: "2 ^ nat (bitlen n - 1) \<le> n" "n < 2 ^ nat (bitlen n)" by auto
  have b1: "1 \<le> bitlen n" using n by (simp add: bitlen_alt_def)
  have fl: "floor_log2 x = - bitlen n" using False by (simp add: floor_log2_def n_def y_def)
  have "\<lceil>y\<rceil> \<le> 2 ^ nat (bitlen n)" using b(2) by (simp add: n_def)
  then have "y \<le> of_int (2 ^ nat (bitlen n))" by (simp only: ceiling_le_iff)
  then have yle: "y \<le> 2 ^ nat (bitlen n)" by simp
  have "(2::int) ^ nat (bitlen n - 1) < \<lceil>y\<rceil>" using b(1) by (simp add: n_def)
  then have "of_int (2 ^ nat (bitlen n - 1)) < y" by (simp only: less_ceiling_iff)
  then have ygt: "2 ^ nat (bitlen n - 1) < y" by simp
  have "(2::rat) powi (- bitlen n) = 1 / 2 ^ nat (bitlen n)"
    using b1 by (simp add: power_int_def field_simps)
  also have "\<dots> \<le> x" using yle assms by (simp add: y_def field_simps)
  finally have lo: "2 powi (floor_log2 x) \<le> x" by (simp add: fl)
  have "x < 1 / 2 ^ nat (bitlen n - 1)" using ygt assms by (simp add: y_def field_simps)
  also have "\<dots> = 2 powi (- bitlen n + 1)"
    using b1 by (simp add: power_int_def field_simps nat_diff_distrib)
  finally show ?thesis using lo by (simp add: fl)
qed

lemma double_round_error:
  assumes "x \<noteq> 0"
  shows "\<bar>double_round x - x\<bar> \<le> 2 powi (max (floor_log2 \<bar>x\<bar>) (- 1022) - 53)"
proof -
  define e where "e = max (floor_log2 \<bar>x\<bar>) (- 1022)"
  define u :: rat where "u = 2 powi (e - 52)"
  have u: "0 < u" by (simp add: u_def)
  have dr: "double_round x = of_int (py_round (x / u)) * u"
    using assms by (simp add: double_round_def Let_def e_def u_def)
  have "double_round x - x = (of_int (py_round (x / u)) - x / u) * u"
    using u by (simp add: dr field_simps)
  then have "\<bar>double_round x - x\<bar> = \<bar>of_int (py_round (x / u)) - x / u\<bar> * u"
    using u by (simp add: abs_mult)
  also have "\<dots> \<le> 1 / 2 * u"
    using py_round_error [of "x / u"] u by (intro mult_right_mono) auto
  also have "\<dots> = 2 powi (e - 53)"
    by (simp add: u_def power_int_diff)
  finally show ?thesis by (simp add: e_def)
qed

lemma floor_log2_less:
  assumes "0 < x" "x < 2 powi n"
  shows "floor_log2 x < n"
proof (rule ccontr)
  assume "\<not> floor_log2 x < n"
  then have "n \<le> floor_log2 x" by simp
  then have "(2::rat) powi n \<le> 2 powi (floor_log2 x)"
    by (intro power_int_increasing) auto
  with floor_log2_bounds [OF assms(1)] assms(2) show False by linarith
qed

lemma floor_log2_ge:
  assumes "0 < x" "2 powi n \<le> x"
  shows "n \<le> floor_log2 x"
proof (rule ccontr)
  assume "\<not> n \<le> floor_log2 x"
  then have "floor_log2 x + 1 \<le> n" by simp
  then have "(2::rat) powi (floor_log2 x + 1) \<le> 2 powi n"
    by (intro power_int_increasing) auto
  with floor_log2_bounds [OF assms(1)] assms(2) show False by linarith
qed

lemma double_round_fixes:
  assumes "x \<noteq> 0" "x = of_int m * 2 powi (max (floor_log2 \<bar>x\<bar>) (- 1022) - 52)"
  shows "double_round x = x"
proof -
  define u :: rat where "u = 2 powi (max (floor_log2 \<bar>x\<bar>) (- 1022) - 52)"
  have u: "0 < u" by (simp add: u_def)
  have "x / u = of_int m" using assms(2) u unfolding u_def [symmetric] by simp
  then have "of_int (py_round (x / u)) * u = x" using assms(2) unfolding u_def [symmetric] by simp
  then show ?thesis using assms(1) by (simp add: double_round_def Let_def u_def)
qed

lemma double_round_multiple:
  assumes "double_round x = x" "x \<noteq> 0"
  shows "\<exists>m. x = of_int m * 2 powi (max (floor_log2 \<bar>x\<bar>) (- 1022) - 52)"
  using assms by (auto simp: double_round_def Let_def) metis

lemma pos_multiple_ge:
  fixes G :: rat
  assumes "0 < G" "0 < of_int j * G"
  shows "G \<le> of_int j * G"
proof -
  have "0 < (of_int j :: rat)" using assms by (simp add: zero_less_mult_iff)
  then have "1 \<le> j" by simp
  then have "(1::rat) \<le> of_int j" by simp
  then show ?thesis using assms(1) by simp
qed

lemma round_quotient_grid:
  assumes x0: "0 \<le> x" and xE: "x * 2 < 2 powi (E - 3) * 45"
    and xm: "x = of_int m * 2 powi (E - 52)" and E: "0 \<le> E" "E \<le> 50"
  shows "py_round (double_round (x / (45 / 2))) = py_round (x / (45 / 2))"
proof (cases "x = 0")
  case True
  then show ?thesis by (simp add: double_round_def)
next
  case False
  define q where "q = x / (45 / 2)"
  define k where "k = py_round q"
  define G :: rat where "G = 2 powi (E - 50)"
  define N :: int where "N = 2 ^ nat (50 - E)"
  have q0: "0 < q" using False x0 by (simp add: q_def)
  have G0: "0 < G" by (simp add: G_def)
  have GN: "G * of_int N = 1"
    using E by (simp add: G_def N_def power_int_def field_simps)
  have x4: "4 * x = of_int m * G"
    by (simp add: xm G_def power_int_diff)
  have "q < 2 powi (E - 3)" using xE by (simp add: q_def field_simps)
  then have "floor_log2 q < E - 3" using q0 by (rule floor_log2_less [rotated])
  then have e: "max (floor_log2 \<bar>q\<bar>) (- 1022) \<le> E - 4" using E q0 by simp
  have "\<bar>double_round q - q\<bar> \<le> 2 powi (max (floor_log2 \<bar>q\<bar>) (- 1022) - 53)"
    using q0 by (intro double_round_error) simp
  also have "\<dots> \<le> 2 powi (E - 57)" using e by (intro power_int_increasing) auto
  also have "\<dots> = G / 128" by (simp add: G_def power_int_diff)
  finally have err: "\<bar>double_round q - q\<bar> \<le> G / 128" .
  from py_round_cases [of q]
  consider (inside) "of_int k - 1 / 2 < q" "q < of_int k + 1 / 2"
    | (tie) "q = of_int k - 1 / 2 \<or> q = of_int k + 1 / 2"
    unfolding k_def by blast
  then have "py_round (double_round q) = k"
  proof cases
    case inside
    have lo: "q - (of_int k - 1 / 2) = of_int (m - 45 * (2 * k - 1) * N) * G / 90"
    proof -
      have "of_int (m - 45 * (2 * k - 1) * N) * G = of_int m * G - 45 * (2 * of_int k - 1) * (G * of_int N)"
        by (simp add: algebra_simps)
      also have "\<dots> = 4 * x - 45 * (2 * of_int k - 1)" by (simp add: GN x4)
      finally show ?thesis by (simp add: q_def field_simps)
    qed
    have hi: "of_int k + 1 / 2 - q = of_int (45 * (2 * k + 1) * N - m) * G / 90"
    proof -
      have "of_int (45 * (2 * k + 1) * N - m) * G = 45 * (2 * of_int k + 1) * (G * of_int N) - of_int m * G"
        by (simp add: algebra_simps)
      also have "\<dots> = 45 * (2 * of_int k + 1) - 4 * x" by (simp add: GN x4)
      finally show ?thesis by (simp add: q_def field_simps)
    qed
    have "0 < of_int (m - 45 * (2 * k - 1) * N) * G" using inside(1) lo by simp
    then have "G \<le> of_int (m - 45 * (2 * k - 1) * N) * G" by (rule pos_multiple_ge [OF G0])
    then have d1: "G / 90 \<le> q - (of_int k - 1 / 2)" using lo by simp
    have "0 < of_int (45 * (2 * k + 1) * N - m) * G" using inside(2) hi by simp
    then have "G \<le> of_int (45 * (2 * k + 1) * N - m) * G" by (rule pos_multiple_ge [OF G0])
    then have d2: "G / 90 \<le> of_int k + 1 / 2 - q" using hi by simp
    have "G / 128 < G / 90" using G0 by simp
    then have "of_int k - 1 / 2 < double_round q" "double_round q < of_int k + 1 / 2"
      using err d1 d2 by linarith+
    then show ?thesis by (rule py_round_interval)
  next
    case tie
    then obtain j :: int where j: "q = of_int j / 2"
    proof
      assume "q = of_int k - 1 / 2"
      then have "q = of_int (2 * k - 1) / 2" by simp
      then show ?thesis by (rule that)
    next
      assume "q = of_int k + 1 / 2"
      then have "q = of_int (2 * k + 1) / 2" by simp
      then show ?thesis by (rule that)
    qed
    define e where "e = max (floor_log2 \<bar>q\<bar>) (- 1022)"
    have e51: "e \<le> 51" using e E by (simp add: e_def)
    have "q = of_int (j * 2 ^ nat (51 - e)) * 2 powi (e - 52)"
    proof -
      have "(2::rat) ^ nat (51 - e) = 2 powi (51 - e)" using e51 by (simp add: power_int_def)
      then have "of_int (j * 2 ^ nat (51 - e)) * 2 powi (e - 52) = (of_int j :: rat) * (2 powi (51 - e) * 2 powi (e - 52))"
        by simp
      also have "(2::rat) powi (51 - e) * 2 powi (e - 52) = 2 powi (- 1)"
        by (simp flip: power_int_add)
      finally show ?thesis by (simp add: j)
    qed
    moreover have "\<bar>q\<bar> = q" using q0 by simp
    ultimately have "double_round q = q" using q0 unfolding e_def
      by (intro double_round_fixes [where m = "j * 2 ^ nat (51 - max (floor_log2 q) (- 1022))"]) simp_all
    then show ?thesis by (simp add: k_def)
  qed
  then show ?thesis by (simp add: k_def q_def)
qed

lemma round_quotient_exact:
  assumes x0: "0 \<le> x" and xE: "x < 2 powi (E + 1)"
    and xm: "x = of_int m * 2 powi (E - 52)" and E: "0 \<le> E" "E \<le> 50"
  shows "py_round (double_round (x / (45 / 2))) = py_round (x / (45 / 2))"
proof -
  have "(2::rat) powi (E + 1) = 16 * 2 powi (E - 3)" by (simp add: power_int_diff power_int_add)
  then have "x < 16 * 2 powi (E - 3)" using xE by simp
  moreover have "(0::rat) < 2 powi (E - 3)" by simp
  ultimately have "x * 2 < 2 powi (E - 3) * 45" by linarith
  with x0 show ?thesis using xm E by (rule round_quotient_grid)
qed

lemma round_quotient_small:
  assumes "0 \<le> x" "x < 1"
  shows "py_round (double_round (x / (45 / 2))) = 0" "py_round (x / (45 / 2)) = 0"
proof -
  define q where "q = x / (45 / 2)"
  have q: "0 \<le> q" "q < 2 / 45" using assms by (simp_all add: q_def)
  show "py_round (x / (45 / 2)) = 0"
    using q unfolding q_def [symmetric] by (intro py_round_interval) auto
  show "py_round (double_round (x / (45 / 2))) = 0"
  proof (cases "q = 0")
    case True
    then show ?thesis unfolding q_def [symmetric] by (simp add: double_round_def py_round_def)
  next
    case False
    then have q0: "0 < q" using q by simp
    have "q < 2 powi (- 4)" using q by simp
    then have "floor_log2 q < - 4" using q0 by (rule floor_log2_less [rotated])
    then have e: "max (floor_log2 \<bar>q\<bar>) (- 1022) \<le> - 5" using q0 by simp
    have "\<bar>double_round q - q\<bar> \<le> 2 powi (max (floor_log2 \<bar>q\<bar>) (- 1022) - 53)"
      using q0 by (intro double_round_error) simp
    also have "\<dots> \<le> 2 powi (- 58)" using e by (intro power_int_increasing) auto
    also have "\<dots> \<le> 1 / 4" by simp
    finally have "\<bar>double_round q - q\<bar> \<le> 1 / 4" .
    then have "- (1 / 2) < double_round q" "double_round q < 1 / 2"
      using q by linarith+
    then have "py_round (double_round q) = 0" by (intro py_round_interval) auto
    then show ?thesis by (simp add: q_def)
  qed
qed

lemma round_quotient_double:
  assumes d: "double_round x = x" and x0: "0 \<le> x" and x51: "x < 2 ^ 51"
  shows "py_round (double_round (x / (45 / 2))) = py_round (x / (45 / 2))"
proof (cases "x < 1")
  case True
  then show ?thesis using round_quotient_small [OF x0] by simp
next
  case False
  then have x1: "1 \<le> x" by simp
  define E where "E = floor_log2 x"
  have xpos: "0 < x" using x1 by simp
  have "2 powi 0 \<le> x" using x1 by simp
  then have E0: "0 \<le> E" unfolding E_def using xpos by (intro floor_log2_ge) auto
  have "x < 2 powi 51" using x51 by simp
  then have "E < 51" unfolding E_def using xpos by (intro floor_log2_less) auto
  then have E50: "E \<le> 50" by simp
  have xE: "x < 2 powi (E + 1)" using floor_log2_bounds [OF xpos] by (simp add: E_def)
  from double_round_multiple [OF d] xpos E0
  obtain m where "x = of_int m * 2 powi (E - 52)" by (auto simp: E_def max_def)
  then show ?thesis using x0 xE E0 E50 by (intro round_quotient_exact [where E = E and m = m]) auto
qed

section \<open>Properties of the cardinal direction\<close>

lemma py_round_tie_even:
  assumes "x = of_int k + 1 / 2 \<or> x = of_int k - 1 / 2" "even k"
  shows "py_round x = k"
  using assms(1)
proof
  assume x: "x = of_int k + 1 / 2"
  then have "\<lfloor>x\<rfloor> = k" by linarith
  then show ?thesis using assms(2) by (simp add: py_round_def Let_def x)
next
  assume x: "x = of_int k - 1 / 2"
  then have f: "\<lfloor>x\<rfloor> = k - 1" by linarith
  then show ?thesis using assms(2) by (simp add: py_round_def Let_def x)
qed

lemma py_round_minus: "py_round (- x) = - py_round x"
proof -
  define k where "k = py_round x"
  from py_round_cases [of x]
  consider "of_int k - 1 / 2 < x" "x < of_int k + 1 / 2"
    | "x = of_int k - 1 / 2" "even k" | "x = of_int k + 1 / 2" "even k"
    unfolding k_def by blast
  then have "py_round (- x) = - k"
  proof cases
    case 1
    then show ?thesis by (intro py_round_interval) auto
  next
    case 2
    then show ?thesis by (intro py_round_tie_even) auto
  next
    case 3
    then show ?thesis by (intro py_round_tie_even) auto
  qed
  then show ?thesis by (simp add: k_def)
qed

lemma double_round_minus: "double_round (- x) = - double_round x"
  by (simp add: double_round_def Let_def py_round_minus)

text \<open>The result of rounding is a float: rounding it again changes nothing.\<close>

lemma floor_log2_eq:
  assumes "2 powi n \<le> x" "x < 2 powi (n + 1)"
  shows "floor_log2 x = n"
proof -
  have "(0::rat) < 2 powi n" by simp
  then have x: "0 < x" using assms(1) by linarith
  have "n \<le> floor_log2 x" using x assms(1) by (rule floor_log2_ge)
  moreover have "floor_log2 x < n + 1" using x assms(2) by (rule floor_log2_less)
  ultimately show ?thesis by simp
qed

lemma double_round_idem_pos:
  assumes x: "0 < x"
  shows "double_round (double_round x) = double_round x"
proof -
  define e where "e = max (floor_log2 x) (- 1022)"
  define u :: rat where "u = 2 powi (e - 52)"
  define m where "m = py_round (x / u)"
  define y where "y = of_int m * u"
  define B :: rat where "B = 2 ^ 53"
  define H :: rat where "H = 2 ^ 52"
  have u: "0 < u" by (simp add: u_def)
  have y: "double_round x = y"
    using x by (simp add: double_round_def Let_def e_def u_def m_def y_def)
  have uB: "u * B = 2 powi (e + 1)"
  proof -
    have "e + 1 = (e - 52) + 53" by simp
    then have "(2::rat) powi (e + 1) = 2 powi ((e - 52) + 53)" by (rule arg_cong)
    also have "\<dots> = 2 powi (e - 52) * 2 powi 53" by (rule power_int_add) simp
    finally show ?thesis by (simp add: u_def B_def)
  qed
  have uH: "u * H = 2 powi e"
  proof -
    have "e = (e - 52) + 52" by simp
    then have "(2::rat) powi e = 2 powi ((e - 52) + 52)" by (rule arg_cong)
    also have "\<dots> = 2 powi (e - 52) * 2 powi 52" by (rule power_int_add) simp
    finally show ?thesis by (simp add: u_def H_def)
  qed
  have HB: "B = 2 * H" by (simp add: B_def H_def)
  have Bint: "B = of_int (2 ^ 53)" by (simp add: B_def)
  have Hint: "H = of_int (2 ^ 52)" by (simp add: H_def)
  have err: "\<bar>of_int m - x / u\<bar> \<le> 1 / 2" unfolding m_def by (rule py_round_error)
  have "x < 2 powi (floor_log2 x + 1)" using floor_log2_bounds [OF x] by simp
  also have "\<dots> \<le> 2 powi (e + 1)" by (intro power_int_increasing) (auto simp: e_def)
  finally have "x < u * B" by (simp only: uB)
  then have xu: "x / u < B" using u by (simp add: field_simps)
  have xu0: "0 \<le> x / u" using x u by simp
  have m0: "0 \<le> m"
  proof -
    have "- 1 < (of_int m :: rat)" using err xu0 by linarith
    then have "of_int (- 1) < (of_int m :: rat)" by simp
    then have "- 1 < m" by (simp only: of_int_less_iff)
    then show ?thesis by simp
  qed
  have m53: "m \<le> 2 ^ 53"
  proof -
    have "(of_int m :: rat) < B + 1" using err xu by linarith
    then have "(of_int m :: rat) < of_int (2 ^ 53 + 1)" by (simp add: Bint)
    then have "m < 2 ^ 53 + 1" by (simp only: of_int_less_iff)
    then show ?thesis by simp
  qed
  show ?thesis
  proof (cases "m = 0")
    case True
    then have "y = 0" by (simp add: y_def)
    then have "double_round y = y" by (simp add: double_round_def)
    then show ?thesis by (simp only: y)
  next
    case False
    then have mpos: "0 < m" using m0 by simp
    then have ypos: "0 < y" using u by (simp add: y_def)
    have yle: "y \<le> 2 powi (e + 1)"
    proof -
      have "(of_int m :: rat) \<le> of_int (2 ^ 53)" using m53 by (simp only: of_int_le_iff)
      then have "of_int m \<le> B" by (simp only: Bint)
      then have "of_int m * u \<le> B * u" using u by (intro mult_right_mono) auto
      then show ?thesis using uB by (simp add: y_def mult.commute)
    qed
    have "\<exists>k. y = of_int k * 2 powi (max (floor_log2 \<bar>y\<bar>) (- 1022) - 52)"
    proof (cases "y = 2 powi (e + 1)")
      case True
      have "(2::rat) powi (e + 1) < 2 powi (e + 1 + 1)" by (intro power_int_strict_increasing) auto
      then have "floor_log2 y = e + 1" using True by (intro floor_log2_eq) auto
      moreover have "- 1022 \<le> e" by (simp add: e_def)
      ultimately have "max (floor_log2 \<bar>y\<bar>) (- 1022) = e + 1" using ypos by simp
      moreover have "y = of_int (2 ^ 52) * 2 powi (e + 1 - 52)"
      proof -
        have "y = u * B" using True uB by simp
        also have "\<dots> = H * (2 * u)" by (simp add: HB)
        also have "2 * u = 2 powi (e + 1 - 52)"
        proof -
          have "e + 1 - 52 = 1 + (e - 52)" by simp
          then have "(2::rat) powi (e + 1 - 52) = 2 powi (1 + (e - 52))" by (rule arg_cong)
          also have "\<dots> = 2 powi 1 * 2 powi (e - 52)" by (rule power_int_add) simp
          finally show ?thesis by (simp add: u_def)
        qed
        finally show ?thesis by (simp only: Hint)
      qed
      ultimately show ?thesis by metis
    next
      case False
      then have ylt: "y < 2 powi (e + 1)" using yle by simp
      have "max (floor_log2 \<bar>y\<bar>) (- 1022) = e"
      proof (cases "- 1022 \<le> floor_log2 x")
        case True
        then have ex: "e = floor_log2 x" by (simp add: e_def)
        have "2 powi e \<le> x" using floor_log2_bounds [OF x] by (simp add: ex)
        then have "u * H \<le> x" by (simp only: uH)
        then have "H \<le> x / u" using u by (simp add: field_simps)
        then have "H - 1 < of_int m" using err by linarith
        then have "(of_int (2 ^ 52 - 1) :: rat) < of_int m" by (simp add: Hint)
        then have "2 ^ 52 - 1 < m" by (simp only: of_int_less_iff)
        then have "2 ^ 52 \<le> m" by simp
        then have "(of_int (2 ^ 52) :: rat) \<le> of_int m" by (simp only: of_int_le_iff)
        then have "H \<le> of_int m" by (simp only: Hint)
        then have "H * u \<le> of_int m * u" using u by (intro mult_right_mono) auto
        then have "2 powi e \<le> y" using uH by (simp add: y_def mult.commute)
        then have "floor_log2 y = e" using ylt by (rule floor_log2_eq)
        then show ?thesis using ypos True ex by simp
      next
        case False
        then have el: "e = - 1022" by (simp add: e_def)
        have "floor_log2 x + 1 \<le> e" using False by (simp add: el)
        have "x < 2 powi (floor_log2 x + 1)" using floor_log2_bounds [OF x] by simp
        also have "\<dots> \<le> 2 powi e" using \<open>floor_log2 x + 1 \<le> e\<close> by (intro power_int_increasing) auto
        finally have "x < u * H" by (simp only: uH)
        then have "x / u < H" using u by (simp add: field_simps)
        then have "(of_int m :: rat) < H + 1" using err by linarith
        then have "(of_int m :: rat) < of_int (2 ^ 52 + 1)" by (simp add: Hint)
        then have "m < 2 ^ 52 + 1" by (simp only: of_int_less_iff)
        then have "m \<le> 2 ^ 52" by simp
        then have "(of_int m :: rat) \<le> of_int (2 ^ 52)" by (simp only: of_int_le_iff)
        then have "of_int m \<le> H" by (simp only: Hint)
        then have "of_int m * u \<le> H * u" using u by (intro mult_right_mono) auto
        then have "y \<le> 2 powi e" using uH by (simp add: y_def mult.commute)
        also have "\<dots> < 2 powi (e + 1)" by (intro power_int_strict_increasing) auto
        finally have "floor_log2 y < e + 1" using ypos by (intro floor_log2_less) auto
        then show ?thesis using ypos by (simp add: el)
      qed
      then have "y = of_int m * 2 powi (max (floor_log2 \<bar>y\<bar>) (- 1022) - 52)"
        by (simp add: y_def u_def)
      then show ?thesis by metis
    qed
    then obtain k where "y = of_int k * 2 powi (max (floor_log2 \<bar>y\<bar>) (- 1022) - 52)" ..
    with ypos have "double_round y = y" by (intro double_round_fixes [where m = k]) auto
    then show ?thesis by (simp only: y)
  qed
qed

lemma double_round_idem: "double_round (double_round x) = double_round x"
proof (cases "0 < x")
  case True
  then show ?thesis by (rule double_round_idem_pos)
next
  case False
  show ?thesis
  proof (cases "x = 0")
    case True
    then show ?thesis by (simp add: double_round_def)
  next
    case False
    with \<open>\<not> 0 < x\<close> have "0 < - x" by simp
    then have "double_round (double_round (- x)) = double_round (- x)" by (rule double_round_idem_pos)
    then show ?thesis by (simp add: double_round_minus)
  qed
qed

lemma round_quotient_double_abs:
  assumes d: "double_round x = x" and x51: "\<bar>x\<bar> < 2 ^ 51"
  shows "py_round (double_round (x / (45 / 2))) = py_round (x / (45 / 2))"
proof (cases "0 \<le> x")
  case True
  then show ?thesis using d x51 by (intro round_quotient_double) auto
next
  case False
  have "double_round (- x) = - x" using d by (simp add: double_round_minus)
  then have "py_round (double_round (- x / (45 / 2))) = py_round (- x / (45 / 2))"
    using False x51 by (intro round_quotient_double) auto
  then have "py_round (- double_round (x / (45 / 2))) = py_round (- (x / (45 / 2)))"
    by (simp add: double_round_minus)
  then show ?thesis by (simp only: py_round_minus neg_equal_iff_equal)
qed

lemma list_index_directions:
  "list_index directions (i mod 16) = Inr (directions ! nat (i mod 16))"
proof -
  have "0 \<le> i mod 16" "i mod 16 < 16" by simp_all
  then show ?thesis by (simp add: list_index_def directions_def)
qed

lemma get_cardinal_direction_float:
  "get_cardinal_direction (PFloat x) = Inr (directions ! nat (py_round (double_round (x / (45 / 2))) mod 16))"
  by (simp add: get_cardinal_direction_def float_truediv_def Let_def list_index_directions)

lemma get_cardinal_direction_double:
  assumes "double_round x = x" "\<bar>x\<bar> < 2 ^ 51"
  shows "get_cardinal_direction (PFloat x) = Inr (cardinal_direction_spec x)"
  using round_quotient_double_abs [OF assms]
  by (simp add: get_cardinal_direction_float cardinal_direction_spec_def)

lemma double_round_of_int:
  assumes "\<bar>n\<bar> < 2 ^ 53"
  shows "double_round (of_int n) = of_int n"
proof (cases "n = 0")
  case True
  then show ?thesis by (simp add: double_round_def)
next
  case False
  define x :: rat where "x = of_int n"
  define E where "E = floor_log2 \<bar>x\<bar>"
  have x0: "0 < \<bar>x\<bar>" using False by (simp add: x_def)
  have "1 \<le> \<bar>n\<bar>" using False by simp
  then have "(1::rat) \<le> of_int \<bar>n\<bar>" by (simp only: of_int_1_le_iff)
  then have "2 powi 0 \<le> \<bar>x\<bar>" by (simp add: x_def)
  then have E0: "0 \<le> E" unfolding E_def using x0 by (intro floor_log2_ge) auto
  have "(of_int \<bar>n\<bar> :: rat) < of_int (2 ^ 53)" using assms by (simp only: of_int_less_iff)
  then have "\<bar>x\<bar> < 2 powi 53" by (simp add: x_def)
  then have "E < 53" unfolding E_def using x0 by (intro floor_log2_less) auto
  then have E52: "E \<le> 52" by simp
  have m: "max E (- 1022) = E" using E0 by simp
  have "(2::rat) ^ nat (52 - E) * 2 powi (E - 52) = 2 powi (52 - E) * 2 powi (E - 52)"
    using E52 by (simp add: power_int_def)
  also have "\<dots> = 1" by (simp flip: power_int_add)
  finally have "x = of_int (n * 2 ^ nat (52 - E)) * 2 powi (E - 52)"
    by (simp add: x_def mult.assoc)
  then have "double_round x = x" using x0 m unfolding E_def
    by (intro double_round_fixes [where m = "n * 2 ^ nat (52 - floor_log2 \<bar>x\<bar>)"]) simp_all
  then show ?thesis by (simp add: x_def)
qed

lemma int_to_float_exact:
  assumes "\<bar>n\<bar> < 2 ^ 53"
  shows "int_to_float n = Inr (of_int n)"
proof -
  have "(of_int \<bar>n\<bar> :: rat) \<le> of_int (2 ^ 53)" using assms by (simp only: of_int_le_iff)
  then have "\<bar>of_int n :: rat\<bar> \<le> 2 ^ 53" by simp
  also have "\<dots> \<le> max_double" by (simp add: max_double_def)
  finally show ?thesis using double_round_of_int [OF assms] by (simp add: int_to_float_def Let_def)
qed

lemma get_cardinal_direction_int:
  assumes "\<bar>n\<bar> < 2 ^ 51"
  shows "get_cardinal_direction (PInt n) = Inr (cardinal_direction_spec (of_int n))"
proof -
  have n53: "\<bar>n\<bar> < 2 ^ 53" using assms by simp
  have "(of_int \<bar>n\<bar> :: rat) < of_int (2 ^ 51)" using assms by (simp only: of_int_less_iff)
  then have "\<bar>of_int n :: rat\<bar> < 2 ^ 51" by simp
  from get_cardinal_direction_double [OF double_round_of_int [OF n53] this]
  show ?thesis
    by (simp add: get_cardinal_direction_def int_to_float_exact [OF n53] float_truediv_def
        get_cardinal_direction_float Let_def)
qed

lemma spec_north_high:
  assumes "1395 / 4 \<le> x" "x < 360"
  shows "cardinal_direction_spec x = ''N''"
proof -
  define q where "q = x / (45 / 2)"
  have q: "31 / 2 \<le> q" "q < 16" using assms by (simp_all add: q_def)
  have "py_round q = 16"
  proof (cases "q = 31 / 2")
    case True
    then have "q = of_int 16 - 1 / 2" by simp
    then show ?thesis by (intro py_round_tie_even) auto
  next
    case False
    then show ?thesis using q by (intro py_round_interval) auto
  qed
  then show ?thesis by (simp add: cardinal_direction_spec_def q_def directions_def)
qed

lemma spec_north_low:
  assumes "0 \<le> x" "x \<le> 45 / 4"
  shows "cardinal_direction_spec x = ''N''"
proof -
  define q where "q = x / (45 / 2)"
  have q: "0 \<le> q" "q \<le> 1 / 2" using assms by (simp_all add: q_def)
  have "py_round q = 0"
  proof (cases "q = 1 / 2")
    case True
    then have "q = of_int 0 + 1 / 2" by simp
    then show ?thesis by (intro py_round_tie_even) auto
  next
    case False
    then show ?thesis using q by (intro py_round_interval) auto
  qed
  then show ?thesis by (simp add: cardinal_direction_spec_def q_def directions_def)
qed

lemma spec_shift_360:
  "cardinal_direction_spec (x - 360 * of_int n) = cardinal_direction_spec x"
proof -
  have "(x - 360 * of_int n) / (45 / 2) = x / (45 / 2) + of_int (2 * (- 8 * n))"
    by (simp add: field_simps)
  then have "py_round ((x - 360 * of_int n) / (45 / 2)) = py_round (x / (45 / 2)) + 2 * (- 8 * n)"
    by (simp only: py_round_add_even)
  then have "py_round ((x - 360 * of_int n) / (45 / 2)) mod 16 = py_round (x / (45 / 2)) mod 16"
    by (simp add: mod_diff_eq [symmetric] mod_simps)
  then show ?thesis by (simp only: cardinal_direction_spec_def)
qed

lemma float_mod_nonneg:
  assumes "0 \<le> x"
  shows "float_mod x 360 = x - 360 * of_int \<lfloor>x / 360\<rfloor>"
proof -
  have "0 \<le> x - 360 * of_int \<lfloor>x / 360\<rfloor>" by linarith
  then show ?thesis using assms by (simp add: float_mod_def c_fmod_def Let_def)
qed

lemma direction_mod_360_nonneg:
  assumes d: "double_round x = x" and x0: "0 \<le> x" and x51: "x < 2 ^ 51"
  shows "get_cardinal_direction (PFloat (float_mod x 360)) = get_cardinal_direction (PFloat x)"
proof (cases "x < 1")
  case True
  then have "\<lfloor>x / 360\<rfloor> = 0" using x0 by linarith
  then show ?thesis by (simp add: float_mod_nonneg [OF x0])
next
  case False
  then have x1: "1 \<le> x" by simp
  define n where "n = \<lfloor>x / 360\<rfloor>"
  define r where "r = x - 360 * of_int n"
  have "0 \<le> n" using x0 by (simp add: n_def)
  then have "(0::rat) \<le> of_int n" by simp
  then have r: "0 \<le> r" "r \<le> x" unfolding r_def n_def by linarith+
  define E where "E = floor_log2 x"
  have xpos: "0 < x" using x1 by simp
  have "2 powi 0 \<le> x" using x1 by simp
  then have E0: "0 \<le> E" unfolding E_def using xpos by (intro floor_log2_ge) auto
  have "x < 2 powi 51" using x51 by simp
  then have "E < 51" unfolding E_def using xpos by (intro floor_log2_less) auto
  then have E50: "E \<le> 50" by simp
  have xE: "x < 2 powi (E + 1)" using floor_log2_bounds [OF xpos] by (simp add: E_def)
  from double_round_multiple [OF d] xpos E0
  obtain m where m: "x = of_int m * 2 powi (E - 52)" by (auto simp: E_def max_def)
  have "(2::rat) ^ nat (52 - E) * 2 powi (E - 52) = 2 powi (52 - E) * 2 powi (E - 52)"
    using E50 by (simp add: power_int_def)
  also have "\<dots> = 1" by (simp flip: power_int_add)
  finally have one: "(2::rat) ^ nat (52 - E) * 2 powi (E - 52) = 1" .
  have "of_int (m - 360 * n * 2 ^ nat (52 - E)) * 2 powi (E - 52)
      = of_int m * 2 powi (E - 52) - 360 * of_int n * ((2::rat) ^ nat (52 - E) * 2 powi (E - 52))"
    by (simp add: algebra_simps)
  also have "\<dots> = r" by (simp add: one r_def m [symmetric])
  finally have rm: "r = of_int (m - 360 * n * 2 ^ nat (52 - E)) * 2 powi (E - 52)" by simp
  have "r < 2 powi (E + 1)" using r xE by simp
  with r(1) have "py_round (double_round (r / (45 / 2))) = py_round (r / (45 / 2))"
    using rm E0 E50 by (rule round_quotient_exact)
  then have "get_cardinal_direction (PFloat r) = Inr (cardinal_direction_spec r)"
    by (simp add: get_cardinal_direction_float cardinal_direction_spec_def)
  also have "\<dots> = Inr (cardinal_direction_spec x)" by (simp only: r_def spec_shift_360)
  also have "\<dots> = get_cardinal_direction (PFloat x)"
    using d x0 x51 by (intro get_cardinal_direction_double [symmetric]) auto
  finally show ?thesis by (simp add: float_mod_nonneg [OF x0] r_def n_def)
qed

lemma is_doubleI:
  assumes "double_round x = x" "\<bar>x\<bar> \<le> 2 ^ 64"
  shows "is_double x"
proof -
  have "(2::rat) ^ 64 \<le> 1 * 2 ^ 971" by simp
  also have "\<dots> \<le> (2 ^ 53 - 1) * 2 ^ 971" by (intro mult_right_mono) simp_all
  finally show ?thesis using assms by (simp add: is_double_def max_double_def)
qed

lemma float_mod_negative_example:
  "is_double (- (45 / 4 + 1 / 2 ^ 49))
   \<and> float_mod (- (45 / 4 + 1 / 2 ^ 49)) 360 = 1395 / 4
   \<and> get_cardinal_direction (PFloat (- (45 / 4 + 1 / 2 ^ 49))) = Inr ''NNW''
   \<and> get_cardinal_direction (PFloat (1395 / 4)) = Inr ''N''"
proof -
  have "double_round (- (45 / 4 + 1 / 2 ^ 49)) = - (45 / 4 + 1 / 2 ^ 49)" by code_simp
  then have "is_double (- (45 / 4 + 1 / 2 ^ 49))" by (rule is_doubleI) simp
  moreover have "float_mod (- (45 / 4 + 1 / 2 ^ 49)) 360 = 1395 / 4" by code_simp
  moreover have "get_cardinal_direction (PFloat (- (45 / 4 + 1 / 2 ^ 49))) = Inr ''NNW''"
    by code_simp
  moreover have "get_cardinal_direction (PFloat (1395 / 4)) = Inr ''N''" by code_simp
  ultimately show ?thesis by simp
qed

text \<open>Rounding to the nearest float keeps the order and the sign.\<close>

lemma is_sector_boundary_odd:
  "odd j \<Longrightarrow> is_sector_boundary (of_int j * 45 / 4)"
  by (simp add: is_sector_boundary_def)

lemma py_round_le_int:
  assumes "x \<le> of_int K"
  shows "py_round x \<le> K"
proof -
  have "\<bar>of_int (py_round x) - x\<bar> \<le> 1 / 2" by (rule py_round_error)
  then have "(of_int (py_round x) :: rat) < of_int K + 1" using assms by linarith
  then have "(of_int (py_round x) :: rat) < of_int (K + 1)" by simp
  then have "py_round x < K + 1" by (simp only: of_int_less_iff)
  then show ?thesis by simp
qed

lemma py_round_ge_int:
  assumes "of_int K \<le> x"
  shows "K \<le> py_round x"
proof -
  have "\<bar>of_int (py_round x) - x\<bar> \<le> 1 / 2" by (rule py_round_error)
  then have "of_int K - 1 < (of_int (py_round x) :: rat)" using assms by linarith
  then have "(of_int (K - 1) :: rat) < of_int (py_round x)" by simp
  then have "K - 1 < py_round x" by (simp only: of_int_less_iff)
  then show ?thesis by simp
qed

lemma double_round_nonneg:
  assumes "0 \<le> y"
  shows "0 \<le> double_round y"
proof (cases "y = 0")
  case True
  then show ?thesis by (simp add: double_round_def)
next
  case False
  define u :: rat where "u = 2 powi (max (floor_log2 \<bar>y\<bar>) (- 1022) - 52)"
  have u: "0 < u" by (simp add: u_def)
  have "of_int 0 \<le> y / u" using assms u by simp
  then have "0 \<le> py_round (y / u)" by (rule py_round_ge_int)
  then have "0 \<le> of_int (py_round (y / u)) * u" using u by simp
  then show ?thesis using False by (simp add: double_round_def Let_def u_def)
qed

lemma powi_multiple:
  assumes "a \<le> b"
  shows "\<exists>N::int. (2::rat) powi b = of_int N * 2 powi a"
proof -
  have "(2::rat) powi b = 2 powi ((b - a) + a)" by simp
  also have "\<dots> = 2 powi (b - a) * 2 powi a" by (rule power_int_add) simp
  also have "(2::rat) powi (b - a) = of_int (2 ^ nat (b - a))"
    using assms by (simp add: power_int_def)
  finally show ?thesis by blast
qed

lemma floor_log2_mono:
  assumes "0 < x" "x \<le> y"
  shows "floor_log2 x \<le> floor_log2 y"
proof -
  have y: "0 < y" using assms by simp
  have "2 powi (floor_log2 x) \<le> x" using floor_log2_bounds [OF assms(1)] by simp
  then have "2 powi (floor_log2 x) \<le> y" using assms(2) by simp
  then show ?thesis using y by (intro floor_log2_ge)
qed

lemma double_round_le:
  assumes y: "0 < y" and yT: "y \<le> T" and T: "double_round T = T"
  shows "double_round y \<le> T"
proof -
  define ey where "ey = max (floor_log2 \<bar>y\<bar>) (- 1022)"
  define eT where "eT = max (floor_log2 \<bar>T\<bar>) (- 1022)"
  define u :: rat where "u = 2 powi (ey - 52)"
  have u: "0 < u" by (simp add: u_def)
  have T0: "0 < T" using y yT by simp
  have "floor_log2 y \<le> floor_log2 T" using y yT by (rule floor_log2_mono)
  then have "ey - 52 \<le> eT - 52" using y T0 by (simp add: ey_def eT_def)
  then obtain N :: int where N: "(2::rat) powi (eT - 52) = of_int N * 2 powi (ey - 52)"
    using powi_multiple by blast
  from double_round_multiple [OF T] T0
  obtain M where "T = of_int M * 2 powi (eT - 52)" by (auto simp: eT_def)
  then have TK: "T = of_int (M * N) * u" by (simp add: N u_def)
  then have "y / u \<le> of_int (M * N)" using yT u by (simp add: field_simps)
  then have "py_round (y / u) \<le> M * N" by (rule py_round_le_int)
  then have "(of_int (py_round (y / u)) :: rat) \<le> of_int (M * N)" by (simp only: of_int_le_iff)
  then have "of_int (py_round (y / u)) * u \<le> of_int (M * N) * u"
    using u by (intro mult_right_mono) auto
  moreover have "double_round y = of_int (py_round (y / u)) * u"
    using y by (simp add: double_round_def Let_def u_def ey_def)
  ultimately show ?thesis using TK by simp
qed

lemma double_round_ge:
  assumes T0: "0 < T" and Ty: "T \<le> y" and T: "double_round T = T"
  shows "T \<le> double_round y"
proof -
  define ey where "ey = max (floor_log2 \<bar>y\<bar>) (- 1022)"
  define eT where "eT = max (floor_log2 \<bar>T\<bar>) (- 1022)"
  define u :: rat where "u = 2 powi (ey - 52)"
  have u: "0 < u" by (simp add: u_def)
  have y: "0 < y" using T0 Ty by simp
  have dy: "double_round y = of_int (py_round (y / u)) * u"
    using y by (simp add: double_round_def Let_def u_def ey_def)
  have le: "floor_log2 T \<le> floor_log2 y" using T0 Ty by (rule floor_log2_mono)
  show ?thesis
  proof (cases "eT = ey")
    case True
    from double_round_multiple [OF T] T0
    obtain M where TM: "T = of_int M * u" by (auto simp: eT_def u_def True [symmetric])
    then have "of_int M \<le> y / u" using Ty u by (simp add: field_simps)
    then have "M \<le> py_round (y / u)" by (rule py_round_ge_int)
    then have "(of_int M :: rat) \<le> of_int (py_round (y / u))" by (simp only: of_int_le_iff)
    then have "of_int M * u \<le> of_int (py_round (y / u)) * u"
      using u by (intro mult_right_mono) auto
    then show ?thesis using TM dy by simp
  next
    case False
    then have lt: "eT < ey" using le y T0 unfolding eT_def ey_def by (simp add: max_def split: if_splits)
    then have ey: "ey = floor_log2 y" "floor_log2 T + 1 \<le> ey"
      using y T0 unfolding eT_def ey_def by (simp_all add: max_def split: if_splits)
    have "T < 2 powi (floor_log2 T + 1)" using floor_log2_bounds [OF T0] by simp
    also have "\<dots> \<le> 2 powi ey" using ey(2) by (intro power_int_increasing) auto
    finally have Tlt: "T < 2 powi ey" .
    have pe: "(2::rat) powi ey = of_int (2 ^ 52) * u"
    proof -
      have "ey = 52 + (ey - 52)" by simp
      then have "(2::rat) powi ey = 2 powi (52 + (ey - 52))" by (rule arg_cong)
      also have "\<dots> = 2 powi 52 * 2 powi (ey - 52)" by (rule power_int_add) simp
      finally show ?thesis by (simp add: u_def)
    qed
    have "2 powi ey \<le> y" using floor_log2_bounds [OF y] by (simp add: ey(1))
    then have "of_int (2 ^ 52) * u \<le> y" by (simp only: pe)
    then have "of_int (2 ^ 52) \<le> y / u" using u by (simp add: field_simps)
    then have "2 ^ 52 \<le> py_round (y / u)" by (rule py_round_ge_int)
    then have "(of_int (2 ^ 52) :: rat) \<le> of_int (py_round (y / u))" by (simp only: of_int_le_iff)
    then have "of_int (2 ^ 52) * u \<le> of_int (py_round (y / u)) * u"
      using u by (intro mult_right_mono) auto
    then have "2 powi ey \<le> double_round y" by (simp only: pe dy)
    then show ?thesis using Tlt by simp
  qed
qed

lemma double_round_quarters:
  assumes "\<bar>j\<bar> < 2 ^ 53"
  shows "double_round (of_int j / 4) = of_int j / 4"
proof (cases "j = 0")
  case True
  then show ?thesis by (simp add: double_round_def)
next
  case False
  define x :: rat where "x = of_int j / 4"
  define E where "E = floor_log2 \<bar>x\<bar>"
  have x0: "0 < \<bar>x\<bar>" using False by (simp add: x_def)
  have "1 \<le> \<bar>j\<bar>" using False by simp
  then have "(1::rat) \<le> of_int \<bar>j\<bar>" by (simp only: of_int_1_le_iff)
  then have "2 powi (- 2) \<le> \<bar>x\<bar>" by (simp add: x_def)
  then have E0: "- 2 \<le> E" unfolding E_def using x0 by (intro floor_log2_ge) auto
  have "(of_int \<bar>j\<bar> :: rat) < of_int (2 ^ 53)" using assms by (simp only: of_int_less_iff)
  then have "\<bar>x\<bar> < 2 powi 51" by (simp add: x_def)
  then have "E < 51" unfolding E_def using x0 by (intro floor_log2_less) auto
  then have E50: "E \<le> 50" by simp
  have m: "max E (- 1022) = E" using E0 by simp
  have "(2::rat) ^ nat (50 - E) * 2 powi (E - 52) = 2 powi (50 - E) * 2 powi (E - 52)"
    using E50 by (simp add: power_int_def)
  also have "\<dots> = 2 powi ((50 - E) + (E - 52))" by (rule power_int_add [symmetric]) simp
  also have "\<dots> = 1 / 4" by simp
  finally have "x = of_int (j * 2 ^ nat (50 - E)) * 2 powi (E - 52)"
    by (simp add: x_def mult.assoc)
  then have "double_round x = x" using x0 m unfolding E_def
    by (intro double_round_fixes [where m = "j * 2 ^ nat (50 - floor_log2 \<bar>x\<bar>)"]) simp_all
  then show ?thesis by (simp add: x_def)
qed

lemma sector_of_rounded:
  assumes y: "0 < y" "y < 2 ^ 40"
    and R: "\<not> is_sector_boundary (double_round y) \<or> double_round y = y"
  shows "cardinal_direction_spec (double_round y) = cardinal_direction_spec y"
proof -
  define q where "q = y / (45 / 2)"
  define k where "k = py_round q"
  define R where "R = double_round y"
  have q0: "0 < q" using y by (simp add: q_def)
  have "q < 2 ^ 40" using y by (simp add: q_def)
  have k0: "0 \<le> k"
  proof -
    have "of_int 0 \<le> q" using q0 by simp
    then show ?thesis unfolding k_def by (rule py_round_ge_int)
  qed
  have k40: "k \<le> 2 ^ 40"
  proof -
    have "q \<le> of_int (2 ^ 40)" using \<open>q < 2 ^ 40\<close> by simp
    then show ?thesis unfolding k_def by (rule py_round_le_int)
  qed
  have dT: "double_round (of_int (45 * (2 * k + 1)) / 4) = of_int (45 * (2 * k + 1)) / 4"
    using k0 k40 by (intro double_round_quarters) auto
  have dT': "double_round (of_int (45 * (2 * k - 1)) / 4) = of_int (45 * (2 * k - 1)) / 4"
    using k0 k40 by (intro double_round_quarters) auto
  from py_round_cases [of q]
  consider (inside) "of_int k - 1 / 2 < q" "q < of_int k + 1 / 2"
    | (tie) "q = of_int k - 1 / 2 \<or> q = of_int k + 1 / 2"
    unfolding k_def by blast
  then have "py_round (R / (45 / 2)) = k"
  proof cases
    case inside
    have lo: "of_int (45 * (2 * k - 1)) / 4 < y" using inside(1) by (simp add: q_def field_simps)
    have hi: "y < of_int (45 * (2 * k + 1)) / 4" using inside(2) by (simp add: q_def field_simps)
    have Rhi: "R \<le> of_int (45 * (2 * k + 1)) / 4"
      unfolding R_def using y(1) hi dT by (intro double_round_le) auto
    have Rlo: "of_int (45 * (2 * k - 1)) / 4 \<le> R"
    proof (cases "0 < (of_int (45 * (2 * k - 1)) / 4 :: rat)")
      case True
      then show ?thesis unfolding R_def using lo dT' by (intro double_round_ge) auto
    next
      case False
      moreover have "0 \<le> R" unfolding R_def using y(1) by (intro double_round_nonneg) simp
      ultimately show ?thesis by linarith
    qed
    have strict: "of_int (45 * (2 * k - 1)) / 4 < R \<and> R < of_int (45 * (2 * k + 1)) / 4"
    proof (cases "R = y")
      case True
      then show ?thesis using lo hi by simp
    next
      case False
      then have nb: "\<not> is_sector_boundary R" using R by (simp add: R_def)
      have "is_sector_boundary (of_int (45 * (2 * k + 1)) / 4)"
        using is_sector_boundary_odd [of "2 * k + 1"] by (simp add: mult.commute)
      then have "R \<noteq> of_int (45 * (2 * k + 1)) / 4" using nb by metis
      moreover have "is_sector_boundary (of_int (45 * (2 * k - 1)) / 4)"
        using is_sector_boundary_odd [of "2 * k - 1"] by (simp add: mult.commute)
      then have "R \<noteq> of_int (45 * (2 * k - 1)) / 4" using nb by metis
      ultimately show ?thesis using Rlo Rhi by linarith
    qed
    then have "of_int k - 1 / 2 < R / (45 / 2)" "R / (45 / 2) < of_int k + 1 / 2"
      by (simp_all add: field_simps)
    then show ?thesis by (rule py_round_interval)
  next
    case tie
    then have "y = of_int (45 * (2 * k - 1)) / 4 \<or> y = of_int (45 * (2 * k + 1)) / 4"
      by (auto simp: q_def field_simps)
    then have "double_round y = y" using dT dT' by metis
    then show ?thesis by (simp add: R_def k_def q_def)
  qed
  then show ?thesis by (simp add: cardinal_direction_spec_def R_def k_def q_def)
qed

text \<open>
  The quotient by 22.5 rounds to the right integer for every float below \<open>45 \<cdot> 2\<^sup>4\<^sup>6\<close> and for
  every integer below \<open>2\<^sup>5\<^sup>3\<close>; just above either bound it does not.
\<close>

lemma round_quotient_wide:
  assumes d: "double_round x = x" and x0: "0 \<le> x" and xb: "x < 45 * 2 ^ 46"
  shows "py_round (double_round (x / (45 / 2))) = py_round (x / (45 / 2))"
proof (cases "x < 2 ^ 51")
  case True
  with d x0 show ?thesis by (rule round_quotient_double)
next
  case False
  then have lo: "2 powi 51 \<le> x" by simp
  have "x < 2 powi (51 + 1)" using xb by simp
  with lo have fl: "floor_log2 x = 51" by (rule floor_log2_eq)
  have xpos: "0 < x" using lo by simp
  from double_round_multiple [OF d] xpos fl
  obtain m where "x = of_int m * 2 powi (- 1)" by auto
  then have xm: "x = of_int (2 * m) * 2 powi (50 - 52)" by simp
  have "x * 2 < 2 powi (50 - 3) * 45" using xb by simp
  with x0 show ?thesis using xm by (rule round_quotient_grid) simp_all
qed

lemma round_quotient_wide_abs:
  assumes d: "double_round x = x" and xb: "\<bar>x\<bar> < 45 * 2 ^ 46"
  shows "py_round (double_round (x / (45 / 2))) = py_round (x / (45 / 2))"
proof (cases "0 \<le> x")
  case True
  then show ?thesis using d xb by (intro round_quotient_wide) auto
next
  case False
  have "double_round (- x) = - x" using d by (simp add: double_round_minus)
  then have "py_round (double_round (- x / (45 / 2))) = py_round (- x / (45 / 2))"
    using False xb by (intro round_quotient_wide) auto
  then have "py_round (- double_round (x / (45 / 2))) = py_round (- (x / (45 / 2)))"
    by (simp add: double_round_minus)
  then show ?thesis by (simp only: py_round_minus neg_equal_iff_equal)
qed

lemma get_cardinal_direction_wide:
  assumes "double_round x = x" "\<bar>x\<bar> < 45 * 2 ^ 46"
  shows "get_cardinal_direction (PFloat x) = Inr (cardinal_direction_spec x)"
  using round_quotient_wide_abs [OF assms]
  by (simp add: get_cardinal_direction_float cardinal_direction_spec_def)

lemma round_quotient_int:
  assumes n0: "0 \<le> n" and n53: "n < 2 ^ 53"
  shows "py_round (double_round (of_int n / (45 / 2))) = py_round (of_int n / (45 / 2))"
proof (cases "n = 0")
  case True
  then show ?thesis by (simp add: double_round_def)
next
  case False
  define q :: rat where "q = of_int n / (45 / 2)"
  define k where "k = py_round q"
  define R where "R = double_round q"
  define L :: rat where "L = of_int k - 1 / 2"
  define H :: rat where "H = of_int k + 1 / 2"
  have "1 \<le> n" using False n0 by simp
  then have "(1::rat) \<le> of_int n" by simp
  then have q0: "0 < q" by (simp add: q_def)
  have "(of_int n :: rat) < of_int (2 ^ 53)" using n53 by (simp only: of_int_less_iff)
  then have qb: "q < 2 powi 49" by (simp add: q_def)
  have k0: "0 \<le> k"
  proof -
    have "of_int 0 \<le> q" using q0 by simp
    then show ?thesis unfolding k_def by (rule py_round_ge_int)
  qed
  have k49: "k \<le> 2 ^ 49"
  proof -
    have "q \<le> of_int (2 ^ 49)" using qb by simp
    then show ?thesis unfolding k_def by (rule py_round_le_int)
  qed
  have "floor_log2 q < 49" using q0 qb by (rule floor_log2_less)
  then have e: "max (floor_log2 \<bar>q\<bar>) (- 1022) - 53 \<le> - 5" using q0 by simp
  have "\<bar>R - q\<bar> \<le> 2 powi (max (floor_log2 \<bar>q\<bar>) (- 1022) - 53)"
    unfolding R_def using q0 by (intro double_round_error) simp
  also have "\<dots> \<le> 2 powi (- 5)" using e by (intro power_int_increasing) auto
  finally have err: "\<bar>R - q\<bar> \<le> 1 / 32" by simp
  have "double_round (of_int (2 * (2 * k + 1)) / 4) = of_int (2 * (2 * k + 1)) / 4"
    using k0 k49 by (intro double_round_quarters) auto
  moreover have "(of_int (2 * (2 * k + 1)) / 4 :: rat) = H" by (simp add: H_def)
  ultimately have dH: "double_round H = H" by simp
  have "double_round (of_int (2 * (2 * k - 1)) / 4) = of_int (2 * (2 * k - 1)) / 4"
    using k0 k49 by (intro double_round_quarters) auto
  moreover have "(of_int (2 * (2 * k - 1)) / 4 :: rat) = L" by (simp add: L_def)
  ultimately have dL: "double_round L = L" by simp
  from py_round_cases [of q]
  consider (inside) "L < q" "q < H" | (tie) "q = L \<or> q = H"
    unfolding k_def L_def H_def by blast
  then have "py_round R = k"
  proof cases
    case tie
    then have "R = q" unfolding R_def using dL dH by metis
    then show ?thesis by (simp add: k_def)
  next
    case inside
    have RH: "R \<le> H" unfolding R_def using q0 inside(2) dH by (intro double_round_le) auto
    have LR: "L \<le> R"
    proof (cases "0 < L")
      case True
      then show ?thesis unfolding R_def using inside(1) dL by (intro double_round_ge) auto
    next
      case False
      moreover have "0 \<le> R" unfolding R_def using q0 by (intro double_round_nonneg) simp
      ultimately show ?thesis by linarith
    qed
    consider (top) "R = H" | (bottom) "R = L" | (between) "L < R" "R < H"
      using RH LR by linarith
    then show ?thesis
    proof cases
      case between
      then show ?thesis unfolding L_def H_def by (rule py_round_interval)
    next
      case top
      define D where "D = 45 * (2 * k + 1) - 4 * n"
      have HD: "H - q = of_int D / 90" by (simp add: H_def q_def D_def field_simps)
      have "0 < (of_int D :: rat)" using inside(2) HD by simp
      then have D0: "0 < D" by simp
      have "\<bar>H - q\<bar> \<le> 1 / 32" using err by (simp only: top)
      then have "(of_int D :: rat) < of_int 3" using HD by linarith
      then have "D < 3" by (simp only: of_int_less_iff)
      then have "even k" using D0 unfolding D_def by presburger
      then show ?thesis unfolding top H_def by (intro py_round_tie_even) auto
    next
      case bottom
      define D where "D = 4 * n - 45 * (2 * k - 1)"
      have LD: "q - L = of_int D / 90" by (simp add: L_def q_def D_def field_simps)
      have "0 < (of_int D :: rat)" using inside(1) LD by simp
      then have D0: "0 < D" by simp
      have "\<bar>L - q\<bar> \<le> 1 / 32" using err by (simp only: bottom)
      then have "(of_int D :: rat) < of_int 3" using LD by linarith
      then have "D < 3" by (simp only: of_int_less_iff)
      then have "even k" using D0 unfolding D_def by presburger
      then show ?thesis unfolding bottom L_def by (intro py_round_tie_even) auto
    qed
  qed
  then show ?thesis by (simp add: R_def k_def q_def)
qed

lemma round_quotient_int_abs:
  assumes "\<bar>n\<bar> < 2 ^ 53"
  shows "py_round (double_round (of_int n / (45 / 2))) = py_round (of_int n / (45 / 2))"
proof (cases "0 \<le> n")
  case True
  then show ?thesis using assms by (intro round_quotient_int) auto
next
  case False
  then have "py_round (double_round (of_int (- n) / (45 / 2))) = py_round (of_int (- n) / (45 / 2))"
    using assms by (intro round_quotient_int) auto
  then have "py_round (- double_round (of_int n / (45 / 2))) = py_round (- (of_int n / (45 / 2)))"
    by (simp add: double_round_minus)
  then show ?thesis by (simp only: py_round_minus neg_equal_iff_equal)
qed

lemma get_cardinal_direction_int_wide:
  assumes "\<bar>n\<bar> < 2 ^ 53"
  shows "get_cardinal_direction (PInt n) = Inr (cardinal_direction_spec (of_int n))"
proof -
  have "get_cardinal_direction (PFloat (of_int n)) = Inr (cardinal_direction_spec (of_int n))"
    using round_quotient_int_abs [OF assms]
    by (simp add: get_cardinal_direction_float cardinal_direction_spec_def)
  then show ?thesis
    by (simp add: get_cardinal_direction_def int_to_float_exact [OF assms] float_truediv_def
        get_cardinal_direction_float Let_def)
qed

lemma direction_mod_360_int_wide:
  assumes "\<bar>n\<bar> < 2 ^ 53"
  shows "get_cardinal_direction (PInt (n mod 360)) = get_cardinal_direction (PInt n)"
proof -
  have "0 \<le> n mod 360" "n mod 360 < 360" by simp_all
  then have "\<bar>n mod 360\<bar> < 2 ^ 51" by simp
  then have "get_cardinal_direction (PInt (n mod 360)) = Inr (cardinal_direction_spec (of_int (n mod 360)))"
    by (rule get_cardinal_direction_int)
  also have "(of_int (n mod 360) :: rat) = of_int n - 360 * of_int (n div 360)"
    by (simp add: minus_mult_div_eq_mod [symmetric])
  also have "Inr (cardinal_direction_spec (of_int n - 360 * of_int (n div 360)))
      = Inr (cardinal_direction_spec (of_int n))" by (simp only: spec_shift_360)
  also have "\<dots> = get_cardinal_direction (PInt n)"
    using assms by (rule get_cardinal_direction_int_wide [symmetric])
  finally show ?thesis .
qed

lemma float_bound_example:
  "is_double (45 * 2 ^ 46 + 23 / 2)
   \<and> float_mod (45 * 2 ^ 46 + 23 / 2) 360 = 23 / 2
   \<and> get_cardinal_direction (PFloat (45 * 2 ^ 46 + 23 / 2)) = Inr ''N''
   \<and> get_cardinal_direction (PFloat (23 / 2)) = Inr ''NNE''"
proof -
  have "double_round (45 * 2 ^ 46 + 23 / 2) = 45 * 2 ^ 46 + 23 / 2" by code_simp
  then have "is_double (45 * 2 ^ 46 + 23 / 2)" by (rule is_doubleI) simp
  moreover have "float_mod (45 * 2 ^ 46 + 23 / 2) 360 = 23 / 2" by code_simp
  moreover have "get_cardinal_direction (PFloat (45 * 2 ^ 46 + 23 / 2)) = Inr ''N''" by code_simp
  moreover have "get_cardinal_direction (PFloat (23 / 2)) = Inr ''NNE''" by code_simp
  ultimately show ?thesis by simp
qed

lemma int_bound_example:
  "(2 ^ 53 + 25) mod 360 = (57::int)
   \<and> get_cardinal_direction (PInt (2 ^ 53 + 25)) = Inr ''NE''
   \<and> get_cardinal_direction (PInt 57) = Inr ''ENE''"
proof -
  have "(2 ^ 53 + 25) mod 360 = (57::int)" by simp
  moreover have "get_cardinal_direction (PInt (2 ^ 53 + 25)) = Inr ''NE''" by code_simp
  moreover have "get_cardinal_direction (PInt 57) = Inr ''ENE''" by code_simp
  ultimately show ?thesis by simp
qed

text \<open>The remainder of a negative float is the exact remainder, rounded once.\<close>

lemma float_mod_negative:
  assumes "az < 0"
  shows "float_mod az 360 = double_round (az - 360 * of_int \<lfloor>az / 360\<rfloor>)"
proof -
  define r where "r = az - 360 * of_int \<lfloor>az / 360\<rfloor>"
  define m where "m = c_fmod az 360"
  have m: "m = az + 360 * of_int \<lfloor>- az / 360\<rfloor>" using assms by (simp add: m_def c_fmod_def)
  show ?thesis
  proof (cases "m < 0")
    case True
    define a where "a = \<lfloor>- az / 360\<rfloor>"
    have "of_int a \<le> - az / 360" "- az / 360 < of_int a + 1" unfolding a_def by linarith+
    moreover have "az + 360 * of_int a < 0" using True by (simp add: m a_def)
    ultimately have "of_int (- a - 1) \<le> az / 360" "az / 360 < of_int (- a - 1) + 1" by simp_all
    then have "\<lfloor>az / 360\<rfloor> = - a - 1" by (rule floor_unique)
    then have "r = m + 360" by (simp add: r_def m a_def)
    moreover have "float_mod az 360 = double_round (m + 360)"
      using True by (simp add: float_mod_def m_def Let_def)
    ultimately show ?thesis by (simp add: r_def)
  next
    case False
    have "m \<le> 0" unfolding m by linarith
    with False have m0: "m = 0" by simp
    then have "az / 360 = of_int (- \<lfloor>- az / 360\<rfloor>)" by (simp add: m)
    then have "\<lfloor>az / 360\<rfloor> = - \<lfloor>- az / 360\<rfloor>" by (simp only: floor_of_int)
    then have "r = 0" using m0 by (simp add: r_def m)
    moreover have "float_mod az 360 = 0" using m0 by (simp add: float_mod_def m_def Let_def)
    ultimately show ?thesis by (simp add: r_def double_round_def)
  qed
qed

lemma remainder_range:
  "0 \<le> az - 360 * of_int \<lfloor>az / 360 :: rat\<rfloor>" "az - 360 * of_int \<lfloor>az / 360 :: rat\<rfloor> < 360"
  by linarith+

lemma remainder_binade51:
  assumes d: "double_round az = az" and lo: "2 ^ 51 \<le> az" and hi: "az < 2 ^ 52"
  shows "double_round (az - 360 * of_int \<lfloor>az / 360\<rfloor>) = az - 360 * of_int \<lfloor>az / 360\<rfloor>"
proof -
  define n where "n = \<lfloor>az / 360\<rfloor>"
  define r where "r = az - 360 * of_int n"
  have r: "0 \<le> r" "r < 360" unfolding r_def n_def by (rule remainder_range)+
  have "2 powi 51 \<le> az" "az < 2 powi (51 + 1)" using lo hi by simp_all
  then have fl: "floor_log2 az = 51" by (rule floor_log2_eq)
  have pos: "0 < az" using lo by simp
  from double_round_multiple [OF d] pos fl
  obtain m where "az = of_int m * 2 powi (- 1)" by auto
  then have rj: "r = of_int (2 * (m - 720 * n)) / 4" by (simp add: r_def)
  then have "0 \<le> (of_int (2 * (m - 720 * n)) :: rat)" "(of_int (2 * (m - 720 * n)) :: rat) < of_int 1440"
    using r by simp_all
  then have "0 \<le> 2 * (m - 720 * n)" "2 * (m - 720 * n) < 1440"
    by (simp_all only: of_int_0_le_iff of_int_less_iff)
  then have "\<bar>2 * (m - 720 * n)\<bar> < 2 ^ 53" by simp
  then have "double_round (of_int (2 * (m - 720 * n)) / 4) = of_int (2 * (m - 720 * n)) / 4"
    by (rule double_round_quarters)
  then have "double_round r = r" by (simp only: rj [symmetric])
  then show ?thesis by (simp only: r_def n_def)
qed

lemma direction_of_remainder:
  assumes d: "double_round az = az" and b: "\<bar>az\<bar> < 45 * 2 ^ 46"
  shows "get_cardinal_direction (PFloat (float_mod az 360))
    = Inr (cardinal_direction_spec (float_mod az 360))"
proof (cases "0 \<le> az")
  case True
  show ?thesis
  proof (cases "az < 2 ^ 51")
    case small: True
    have "get_cardinal_direction (PFloat (float_mod az 360)) = get_cardinal_direction (PFloat az)"
      using d True small by (rule direction_mod_360_nonneg)
    also have "\<dots> = Inr (cardinal_direction_spec az)"
      using d True small by (intro get_cardinal_direction_double) auto
    also have "cardinal_direction_spec az = cardinal_direction_spec (float_mod az 360)"
      by (simp only: float_mod_nonneg [OF True] spec_shift_360)
    finally show ?thesis .
  next
    case False
    define r where "r = az - 360 * of_int \<lfloor>az / 360\<rfloor>"
    have r: "0 \<le> r" "r < 360" unfolding r_def by (rule remainder_range)+
    have "az < 2 ^ 52" using b by simp
    with d False have "double_round r = r" unfolding r_def by (intro remainder_binade51) auto
    moreover have "\<bar>r\<bar> < 2 ^ 51" using r by simp
    ultimately have "get_cardinal_direction (PFloat r) = Inr (cardinal_direction_spec r)"
      by (rule get_cardinal_direction_double)
    then show ?thesis by (simp only: float_mod_nonneg [OF True] r_def)
  qed
next
  case False
  define r where "r = az - 360 * of_int \<lfloor>az / 360\<rfloor>"
  have r: "0 \<le> r" "r < 360" unfolding r_def by (rule remainder_range)+
  have R: "float_mod az 360 = double_round r" using False by (simp add: float_mod_negative r_def)
  have "double_round (of_int 512) = of_int 512" by (intro double_round_of_int) simp
  then have d512: "double_round 512 = 512" by simp
  have "0 \<le> double_round r" using r(1) by (rule double_round_nonneg)
  moreover have "double_round r \<le> 512"
  proof (cases "r = 0")
    case True
    then show ?thesis by (simp add: double_round_def)
  next
    case False
    then show ?thesis using r d512 by (intro double_round_le) auto
  qed
  ultimately have "\<bar>double_round r\<bar> < 2 ^ 51" by simp
  with double_round_idem [of r] show ?thesis unfolding R by (rule get_cardinal_direction_double)
qed

lemma direction_of_azimuth:
  assumes d: "double_round az = az" and b: "\<bar>az\<bar> < 45 * 2 ^ 46"
  shows "get_cardinal_direction (PFloat az)
    = Inr (cardinal_direction_spec (az - 360 * of_int \<lfloor>az / 360\<rfloor>))"
  using get_cardinal_direction_wide [OF d b] by (simp only: spec_shift_360)

lemma remainder_keeps_sector:
  assumes "0 \<le> az \<or> \<not> is_sector_boundary (float_mod az 360)
      \<or> float_mod az 360 = az - 360 * of_int \<lfloor>az / 360\<rfloor>"
  shows "cardinal_direction_spec (float_mod az 360)
    = cardinal_direction_spec (az - 360 * of_int \<lfloor>az / 360\<rfloor>)"
proof (cases "0 \<le> az")
  case True
  then show ?thesis by (simp add: float_mod_nonneg)
next
  case False
  define r where "r = az - 360 * of_int \<lfloor>az / 360\<rfloor>"
  have r: "0 \<le> r" "r < 360" unfolding r_def by (rule remainder_range)+
  have R: "float_mod az 360 = double_round r" using False by (simp add: float_mod_negative r_def)
  show ?thesis
  proof (cases "r = 0")
    case True
    then show ?thesis unfolding R r_def [symmetric] by (simp add: double_round_def)
  next
    case nz: False
    have "\<not> is_sector_boundary (double_round r) \<or> double_round r = r"
      using assms False by (simp add: R r_def)
    moreover have "0 < r" "r < 2 ^ 40" using r nz by simp_all
    ultimately have "cardinal_direction_spec (double_round r) = cardinal_direction_spec r"
      by (intro sector_of_rounded) auto
    then show ?thesis by (simp add: R r_def)
  qed
qed

text \<open>
  Claim C1.  For every azimuth in \<open>[0, 360)\<close>, a float or an integer,
  \<open>get_cardinal_direction\<close> returns the label that the algorithm of the specification
  gives in exact arithmetic: divide by 22.5, round to the nearest integer (a tie goes to
  the even one, as Python's \<open>round\<close> does), reduce modulo 16, index the rose
  \<open>directions\<close>.  It maps 0 to N, 45 to NE, 348.75 to N, 11.24 to N, 22.5 to NNE, and every
  azimuth in \<open>[348.75, 360)\<close> and in \<open>[0, 11.25]\<close> to N.
\<close>

theorem cardinal_direction_rose:
  "(\<forall>az. is_double az \<and> 0 \<le> az \<and> az < 360 \<longrightarrow>
        get_cardinal_direction (PFloat az) = Inr (cardinal_direction_spec az))
   \<and> (\<forall>n. 0 \<le> n \<and> n < 360 \<longrightarrow>
        get_cardinal_direction (PInt n) = Inr (cardinal_direction_spec (of_int n)))
   \<and> get_cardinal_direction (PInt 0) = Inr ''N''
   \<and> get_cardinal_direction (PInt 45) = Inr ''NE''
   \<and> get_cardinal_direction (PFloat (float_literal (34875 / 100))) = Inr ''N''
   \<and> get_cardinal_direction (PFloat (float_literal (1124 / 100))) = Inr ''N''
   \<and> get_cardinal_direction (PFloat (float_literal (225 / 10))) = Inr ''NNE''
   \<and> (\<forall>az. is_double az \<and> (1395 / 4 \<le> az \<and> az < 360 \<or> 0 \<le> az \<and> az \<le> 45 / 4) \<longrightarrow>
        get_cardinal_direction (PFloat az) = Inr ''N'')"
proof (intro conjI allI impI)
  fix az :: rat
  assume "is_double az \<and> 0 \<le> az \<and> az < 360"
  then show "get_cardinal_direction (PFloat az) = Inr (cardinal_direction_spec az)"
    by (intro get_cardinal_direction_double) (auto simp: is_double_def)
next
  fix n :: int
  assume "0 \<le> n \<and> n < 360"
  then show "get_cardinal_direction (PInt n) = Inr (cardinal_direction_spec (of_int n))"
    by (intro get_cardinal_direction_int) auto
next
  have "cardinal_direction_spec (of_int 0) = ''N''" by (intro spec_north_low) simp_all
  then show "get_cardinal_direction (PInt 0) = Inr ''N''"
    using get_cardinal_direction_int [of 0] by simp
next
  have "cardinal_direction_spec (of_int 45) = ''NE''" by code_simp
  then show "get_cardinal_direction (PInt 45) = Inr ''NE''"
    using get_cardinal_direction_int [of 45] by simp
next
  show "get_cardinal_direction (PFloat (float_literal (34875 / 100))) = Inr ''N''"
    by code_simp
next
  show "get_cardinal_direction (PFloat (float_literal (1124 / 100))) = Inr ''N''"
    by code_simp
next
  show "get_cardinal_direction (PFloat (float_literal (225 / 10))) = Inr ''NNE''"
    by code_simp
next
  fix az :: rat
  assume a: "is_double az \<and> (1395 / 4 \<le> az \<and> az < 360 \<or> 0 \<le> az \<and> az \<le> 45 / 4)"
  then have "get_cardinal_direction (PFloat az) = Inr (cardinal_direction_spec az)"
    by (intro get_cardinal_direction_double) (auto simp: is_double_def)
  moreover have "cardinal_direction_spec az = ''N''"
    using a spec_north_high [of az] spec_north_low [of az] by blast
  ultimately show "get_cardinal_direction (PFloat az) = Inr ''N''" by simp
qed

theorem cardinal_direction_rose_witness:
  "is_double 100 \<and> (0::rat) \<le> 100 \<and> (100::rat) < 360
   \<and> get_cardinal_direction (PFloat 100) = Inr ''E''
   \<and> (0::int) \<le> 270 \<and> (270::int) < 360
   \<and> get_cardinal_direction (PInt 270) = Inr ''W''
   \<and> is_double 350 \<and> (1395 / 4 :: rat) \<le> 350 \<and> (350::rat) < 360
   \<and> get_cardinal_direction (PFloat 350) = Inr ''N''"
proof -
  have "double_round 100 = 100" by code_simp
  then have d1: "is_double 100" by (rule is_doubleI) simp
  have "double_round 350 = 350" by code_simp
  then have d2: "is_double 350" by (rule is_doubleI) simp
  have s1: "cardinal_direction_spec 100 = ''E''" by code_simp
  have s2: "cardinal_direction_spec (of_int 270) = ''W''" by code_simp
  have h1: "is_double 100 \<and> (0::rat) \<le> 100 \<and> (100::rat) < 360" using d1 by simp
  have h2: "(0::int) \<le> 270 \<and> (270::int) < 360" by simp
  have h3: "is_double 350 \<and> ((1395 / 4 :: rat) \<le> 350 \<and> (350::rat) < 360
      \<or> (0::rat) \<le> 350 \<and> (350::rat) \<le> 45 / 4)" using d2 by simp
  from cardinal_direction_rose h1
  have r1: "get_cardinal_direction (PFloat 100) = Inr (cardinal_direction_spec 100)" by blast
  from cardinal_direction_rose h2
  have r2: "get_cardinal_direction (PInt 270) = Inr (cardinal_direction_spec (of_int 270))"
    by blast
  from cardinal_direction_rose h3
  have r3: "get_cardinal_direction (PFloat 350) = Inr ''N''" by blast
  show ?thesis using d1 d2 r1 r2 r3 s1 s2 by simp
qed

text \<open>
  Claim C2, as stated: for every azimuth, also below 0 and at or above 360,
  \<open>get_cardinal_direction(azimuth)\<close> equals \<open>get_cardinal_direction(azimuth % 360)\<close>.
  It fails at the float \<open>2\<^sup>6\<^sup>0\<close>: the quotient by 22.5 is rounded to a multiple of 8 there,
  which gives S, while \<open>2\<^sup>6\<^sup>0 % 360 = 136\<close> lies in the sector SE.
\<close>

theorem mod_360_counterexample:
  "is_double (2 ^ 60)
   \<and> float_mod (2 ^ 60) 360 = 136
   \<and> get_cardinal_direction (PFloat (2 ^ 60)) = Inr ''S''
   \<and> get_cardinal_direction (PFloat (float_mod (2 ^ 60) 360)) = Inr ''SE''
   \<and> get_cardinal_direction (PFloat (2 ^ 60))
       \<noteq> get_cardinal_direction (PFloat (float_mod (2 ^ 60) 360))"
proof -
  have "double_round (2 ^ 60) = 2 ^ 60" by code_simp
  then have "is_double (2 ^ 60)" by (rule is_doubleI) simp
  moreover have m: "float_mod (2 ^ 60) 360 = 136" by code_simp
  moreover have "get_cardinal_direction (PFloat (2 ^ 60)) = Inr ''S''" by code_simp
  moreover have "get_cardinal_direction (PFloat 136) = Inr ''SE''" by code_simp
  ultimately show ?thesis by simp
qed

text \<open>
  Claim C2, amended.  For a float azimuth of magnitude below \<open>45 \<cdot> 2\<^sup>4\<^sup>6\<close>,
  \<open>get_cardinal_direction\<close> gives the same label for the azimuth and for \<open>azimuth % 360\<close>
  exactly when the float remainder lies in the same sector as the exact remainder
  \<open>azimuth - 360 \<cdot> \<lfloor>azimuth / 360\<rfloor>\<close>.  That is so for every azimuth that is not negative, whose
  remainder is computed without rounding, and for every negative azimuth whose float
  remainder is exact or is not an odd multiple of 11.25: so for \<open>-45.3\<close>, but not for the
  float just below \<open>-11.25\<close> (lemma \<open>float_mod_negative_example\<close>).  For an integer azimuth of
  magnitude below \<open>2\<^sup>5\<^sup>3\<close> the two labels are always the same.  Just above either bound the
  equation fails (lemmas \<open>float_bound_example\<close> and \<open>int_bound_example\<close>).
\<close>

theorem direction_mod_360:
  "(\<forall>az. is_double az \<and> \<bar>az\<bar> < 45 * 2 ^ 46 \<longrightarrow>
        (get_cardinal_direction (PFloat (float_mod az 360)) = get_cardinal_direction (PFloat az)
         \<longleftrightarrow> cardinal_direction_spec (float_mod az 360)
              = cardinal_direction_spec (az - 360 * of_int \<lfloor>az / 360\<rfloor>)))
   \<and> (\<forall>az. is_double az \<and> \<bar>az\<bar> < 45 * 2 ^ 46
        \<and> (0 \<le> az \<or> \<not> is_sector_boundary (float_mod az 360)
           \<or> float_mod az 360 = az - 360 * of_int \<lfloor>az / 360\<rfloor>) \<longrightarrow>
        get_cardinal_direction (PFloat (float_mod az 360)) = get_cardinal_direction (PFloat az))
   \<and> (\<forall>az. 0 \<le> az \<longrightarrow> float_mod az 360 = az - 360 * of_int \<lfloor>az / 360\<rfloor>)
   \<and> (\<forall>n. \<bar>n\<bar> < 2 ^ 53 \<longrightarrow>
        get_cardinal_direction (PInt (n mod 360)) = get_cardinal_direction (PInt n))"
proof (intro conjI allI impI)
  fix az :: rat
  assume "is_double az \<and> \<bar>az\<bar> < 45 * 2 ^ 46"
  then have d: "double_round az = az" and b: "\<bar>az\<bar> < 45 * 2 ^ 46"
    by (simp_all add: is_double_def)
  show "get_cardinal_direction (PFloat (float_mod az 360)) = get_cardinal_direction (PFloat az)
      \<longleftrightarrow> cardinal_direction_spec (float_mod az 360)
          = cardinal_direction_spec (az - 360 * of_int \<lfloor>az / 360\<rfloor>)"
    by (simp only: direction_of_remainder [OF d b] direction_of_azimuth [OF d b] sum.inject)
next
  fix az :: rat
  assume a: "is_double az \<and> \<bar>az\<bar> < 45 * 2 ^ 46
        \<and> (0 \<le> az \<or> \<not> is_sector_boundary (float_mod az 360)
           \<or> float_mod az 360 = az - 360 * of_int \<lfloor>az / 360\<rfloor>)"
  then have d: "double_round az = az" and b: "\<bar>az\<bar> < 45 * 2 ^ 46"
    by (simp_all add: is_double_def)
  from a have "cardinal_direction_spec (float_mod az 360)
      = cardinal_direction_spec (az - 360 * of_int \<lfloor>az / 360\<rfloor>)"
    by (intro remainder_keeps_sector) blast
  then show "get_cardinal_direction (PFloat (float_mod az 360)) = get_cardinal_direction (PFloat az)"
    by (simp only: direction_of_remainder [OF d b] direction_of_azimuth [OF d b])
next
  fix az :: rat
  assume "0 \<le> az"
  then show "float_mod az 360 = az - 360 * of_int \<lfloor>az / 360\<rfloor>" by (rule float_mod_nonneg)
next
  fix n :: int
  assume "\<bar>n\<bar> < 2 ^ 53"
  then show "get_cardinal_direction (PInt (n mod 360)) = get_cardinal_direction (PInt n)"
    by (rule direction_mod_360_int_wide)
qed

theorem direction_mod_360_witness:
  "is_double (float_literal (- (453 / 10))) \<and> \<bar>float_literal (- (453 / 10))\<bar> < 45 * 2 ^ 46
   \<and> \<not> is_sector_boundary (float_mod (float_literal (- (453 / 10))) 360)
   \<and> float_mod (float_literal (- (453 / 10))) 360
       \<noteq> float_literal (- (453 / 10)) - 360 * of_int \<lfloor>float_literal (- (453 / 10)) / 360\<rfloor>
   \<and> get_cardinal_direction (PFloat (float_mod (float_literal (- (453 / 10))) 360))
       = get_cardinal_direction (PFloat (float_literal (- (453 / 10))))
   \<and> get_cardinal_direction (PFloat (float_literal (- (453 / 10)))) = Inr ''NW''
   \<and> cardinal_direction_spec (float_mod (float_literal (- (453 / 10))) 360)
       = cardinal_direction_spec
           (float_literal (- (453 / 10)) - 360 * of_int \<lfloor>float_literal (- (453 / 10)) / 360\<rfloor>)
   \<and> (0::rat) \<le> 765 \<and> float_mod 765 360 = 765 - 360 * of_int \<lfloor>765 / 360 :: rat\<rfloor>
   \<and> \<bar>- 45 :: int\<bar> < 2 ^ 53
   \<and> get_cardinal_direction (PInt (- 45 mod 360)) = get_cardinal_direction (PInt (- 45))"
proof -
  define az where "az = float_literal (- (453 / 10))"
  have "double_round az = az" unfolding az_def float_literal_def by (rule double_round_idem)
  moreover have b64: "\<bar>az\<bar> \<le> 2 ^ 64" unfolding az_def by code_simp
  ultimately have d: "is_double az" by (rule is_doubleI)
  have b: "\<bar>az\<bar> < 45 * 2 ^ 46" unfolding az_def by code_simp
  have nb: "\<not> is_sector_boundary (float_mod az 360)" unfolding az_def by code_simp
  have ne: "float_mod az 360 \<noteq> az - 360 * of_int \<lfloor>az / 360\<rfloor>" unfolding az_def by code_simp
  have v: "get_cardinal_direction (PFloat az) = Inr ''NW''" unfolding az_def by code_simp
  have p: "(0::rat) \<le> 765" by simp
  have i: "\<bar>- 45 :: int\<bar> < 2 ^ 53" by simp
  from direction_mod_360 d b nb
  have r1: "get_cardinal_direction (PFloat (float_mod az 360)) = get_cardinal_direction (PFloat az)"
    by blast
  from direction_mod_360 d b r1
  have r2: "cardinal_direction_spec (float_mod az 360)
      = cardinal_direction_spec (az - 360 * of_int \<lfloor>az / 360\<rfloor>)" by blast
  from direction_mod_360 p
  have r3: "float_mod 765 360 = 765 - 360 * of_int \<lfloor>765 / 360 :: rat\<rfloor>" by blast
  from direction_mod_360 i
  have r4: "get_cardinal_direction (PInt (- 45 mod 360)) = get_cardinal_direction (PInt (- 45))"
    by blast
  from d b nb ne r1 v r2 p r3 i r4 show ?thesis unfolding az_def by blast
qed

section \<open>Properties of the program\<close>

lemmas io_defs = io_return_def io_raise_def io_lift_def io_emit_def io_bind_def io_then_def
  io_catch_def

lemma snd_io_return: "snd (io_return x) = Inr x" by (simp add: io_return_def)
lemma snd_io_raise: "snd (io_raise e) = Inl e" by (simp add: io_raise_def)
lemma snd_io_lift: "snd (io_lift r) = r" by (simp add: io_lift_def)
lemma snd_io_emit: "snd (io_emit ev) = Inr ()" by (simp add: io_emit_def)
lemma snd_io_bind: "snd (io_bind m f) = (case snd m of Inl e \<Rightarrow> Inl e | Inr x \<Rightarrow> snd (f x))"
  by (simp add: io_bind_def split: prod.splits sum.splits)
lemma snd_io_then: "snd (io_then m n) = (case snd m of Inl e \<Rightarrow> Inl e | Inr x \<Rightarrow> snd n)"
  by (simp add: io_then_def snd_io_bind)
lemma snd_io_catch: "snd (io_catch m h) = (case snd m of Inl e \<Rightarrow> snd (h e) | Inr x \<Rightarrow> Inr x)"
  by (simp add: io_catch_def split: prod.splits sum.splits)

lemmas snd_io = snd_io_return snd_io_raise snd_io_lift snd_io_emit snd_io_bind snd_io_then
  snd_io_catch

lemmas http_defs = requests_get_def raise_for_status_def response_json_def

subsection \<open>Location and time zone\<close>

lemma city_default_no_call:
  "location = None \<or> location = Some [] \<Longrightarrow>
   get_city_coordinates L W location
     = ([Print (nl # ''Using default location: Los Angeles'')], Inr default_location)"
  by (auto simp: get_city_coordinates_def io_defs DEFAULT_CITY_def)

lemma city_no_match:
  "location = Some q \<Longrightarrow> q \<noteq> [] \<Longrightarrow> geocode W q = GeoNone \<Longrightarrow>
   snd (get_city_coordinates L W location) = Inr default_location"
  by (simp add: get_city_coordinates_def io_defs)

lemma city_timeout:
  "location = Some q \<Longrightarrow> q \<noteq> [] \<Longrightarrow> geocode W q = GeoRaises e \<Longrightarrow>
   e = GeocoderTimedOut \<or> e = GeocoderUnavailable \<Longrightarrow>
   snd (get_city_coordinates L W location) = Inr default_location"
  by (auto simp: get_city_coordinates_def io_defs)

lemma city_other_error:
  "location = Some q \<Longrightarrow> q \<noteq> [] \<Longrightarrow> geocode W q = GeoRaises e \<Longrightarrow>
   e \<noteq> GeocoderTimedOut \<Longrightarrow> e \<noteq> GeocoderUnavailable \<Longrightarrow>
   get_city_coordinates L W location = ([GeocodeCall q], Inl e)"
  by (auto simp: get_city_coordinates_def io_defs)

text \<open>
  Claim C7 says that \<open>get_city_coordinates\<close> never fails its caller.  The default
  location is returned for no input, for no match and for the two errors that the
  \<open>except\<close> clause names (the lemmas above).  Any other error of the geocoder is not
  caught: with a location given and the geocoder raising \<open>GeocoderServiceError\<close>, the
  exception leaves the function.
\<close>

theorem geocoder_error_propagates:
  "get_city_coordinates L geocoder_error_world (Some ''Paris, USA'')
     = ([GeocodeCall ''Paris, USA''], Inl GeocoderServiceError)"
  by (simp add: get_city_coordinates_def io_defs geocoder_error_world_def quiet_world_def)

lemma default_coordinates_in_range:
  "- 90 \<le> DEFAULT_latitude" "DEFAULT_latitude \<le> 90"
  "- 180 \<le> DEFAULT_longitude" "DEFAULT_longitude \<le> 180"
  by code_simp+

lemma timezone_no_match:
  assumes "- 90 \<le> latitude" "latitude \<le> 90" "- 180 \<le> longitude" "longitude \<le> 180"
    and "timezone_at W latitude longitude = None"
  shows "get_timezone_from_coordinates W latitude longitude = Inr ''America/Los_Angeles''"
  using assms by (simp add: get_timezone_from_coordinates_def tf_timezone_at_def sum_bind_def)

lemma timezone_match:
  assumes "- 90 \<le> latitude" "latitude \<le> 90" "- 180 \<le> longitude" "longitude \<le> 180"
    and "timezone_at W latitude longitude = Some tz" "tz \<noteq> []"
  shows "get_timezone_from_coordinates W latitude longitude = Inr tz"
  using assms by (simp add: get_timezone_from_coordinates_def tf_timezone_at_def sum_bind_def)

lemma timezone_raises_iff:
  "get_timezone_from_coordinates W latitude longitude = Inl e \<longleftrightarrow>
     e = ValueError \<and> (longitude < - 180 \<or> 180 < longitude \<or> latitude < - 90 \<or> 90 < latitude)"
  by (auto simp: get_timezone_from_coordinates_def tf_timezone_at_def sum_bind_def)

text \<open>
  Claim C8 says that \<open>get_timezone_from_coordinates\<close> returns \<open>America/Los_Angeles\<close>
  when the lookup finds no match, returns a matched identifier unchanged, and never raises.
  The first two parts hold for coordinates in range (\<open>timezone_no_match\<close>,
  \<open>timezone_match\<close>).  For coordinates out of range the lookup raises \<open>ValueError\<close>,
  which the function does not catch: at latitude 91 it raises.
\<close>

theorem timezone_out_of_range_raises:
  "get_timezone_from_coordinates W 91 0 = Inl ValueError"
  by (simp add: get_timezone_from_coordinates_def tf_timezone_at_def sum_bind_def)

subsection \<open>Current position\<close>

lemma read_position_shape:
  "snd (read_position L data) = Inr p \<Longrightarrow>
     p = no_position \<or> (\<exists>lat lng alt. p = (Some lat, Some lng, Some alt))"
  by (auto simp: read_position_def snd_io sum_bind_def split: sum.splits if_splits)

lemma get_iss_position_shape:
  assumes "snd (get_iss_position L W) = Inr p"
  shows "p = no_position \<or> (\<exists>lat lng alt. p = (Some lat, Some lng, Some alt))"
  using assms
  by (auto simp: get_iss_position_def snd_io requests_get_def raise_for_status_def
      response_json_def split: sum.splits if_splits http_reply.splits
      dest: read_position_shape)

lemma position_transport_failure:
  "positions_reply W = NoReply \<Longrightarrow> snd (get_iss_position L W) = Inr no_position"
  by (simp add: get_iss_position_def snd_io http_defs is_RequestException_def)

lemma position_http_error:
  "positions_reply W = Reply status body \<Longrightarrow> 400 \<le> status \<Longrightarrow> status < 600 \<Longrightarrow>
   snd (get_iss_position L W) = Inr no_position"
  by (simp add: get_iss_position_def snd_io http_defs is_RequestException_def)

lemma position_not_json:
  "positions_reply W = Reply status (Inl JSONDecodeError) \<Longrightarrow>
   snd (get_iss_position L W) = Inr no_position"
  by (simp add: get_iss_position_def snd_io http_defs is_RequestException_def)

lemma position_parser_raises:
  "positions_reply W = Reply status (Inl e) \<Longrightarrow> \<not> (400 \<le> status \<and> status < 600) \<Longrightarrow>
   snd (get_iss_position L W) =
     (if is_RequestException e \<or> e = KeyError \<or> e = IndexError \<or> is_ValueError e
      then Inr no_position else Inl e)"
  by (auto simp: get_iss_position_def snd_io http_defs)

lemma position_from_data:
  "positions_reply W = Reply status (Inr data) \<Longrightarrow> \<not> (400 \<le> status \<and> status < 600) \<Longrightarrow>
   snd (get_iss_position L W) =
     (case snd (read_position L data) of
        Inl e \<Rightarrow> if is_RequestException e \<or> e = KeyError \<or> e = IndexError \<or> is_ValueError e
                 then Inr no_position else Inl e
      | Inr p \<Rightarrow> Inr p)"
  by (cases "snd (read_position L data)") (auto simp: get_iss_position_def snd_io http_defs)

lemma read_error_field:
  "map_of kvs ''error'' = Some v \<Longrightarrow> snd (read_position L (PDict kvs)) = Inr no_position"
  by (simp add: read_position_def snd_io)

lemma read_missing_positions:
  "map_of kvs ''error'' = None \<Longrightarrow> map_of kvs ''positions'' = None \<Longrightarrow>
   snd (read_position L (PDict kvs)) = Inr no_position"
  by (simp add: read_position_def snd_io)

lemma read_empty_positions:
  "map_of kvs ''error'' = None \<Longrightarrow> map_of kvs ''positions'' = Some (PList []) \<Longrightarrow>
   snd (read_position L (PDict kvs)) = Inr no_position"
  by (simp add: read_position_def snd_io)

lemma read_first_entry:
  "map_of kvs ''error'' = None \<Longrightarrow> map_of kvs ''positions'' = Some (PList (entry # rest)) \<Longrightarrow>
   snd (read_position L (PDict kvs)) =
     sum_bind (py_getitem entry ''satlatitude'') (\<lambda>v1.
     sum_bind (py_float (float_of_str L) v1) (\<lambda>lat.
     sum_bind (py_getitem entry ''satlongitude'') (\<lambda>v2.
     sum_bind (py_float (float_of_str L) v2) (\<lambda>lng.
     sum_bind (py_getitem entry ''sataltitude'') (\<lambda>v3.
     sum_bind (py_float (float_of_str L) v3) (\<lambda>alt.
       Inr (Some lat, Some lng, Some alt)))))))"
  by (simp add: read_position_def snd_io sum_bind_def)

lemma py_contains_raises: "py_contains k v = Inl e \<Longrightarrow> e = TypeError"
  by (cases v) auto

lemma py_getitem_raises: "py_getitem v k = Inl e \<Longrightarrow> e = KeyError \<or> e = TypeError"
  by (cases v) (auto split: option.splits)

lemma py_getitem0_raises:
  "py_getitem0 v = Inl e \<Longrightarrow> e = KeyError \<or> e = IndexError \<or> e = TypeError"
  by (cases v rule: py_getitem0.cases) auto

lemma py_float_raises:
  "py_float rd v = Inl e \<Longrightarrow> e = ValueError \<or> e = TypeError \<or> e = OverflowError"
  by (cases v) (auto simp: int_to_float_def Let_def split: option.splits if_splits)

lemma read_position_raises:
  "snd (read_position L data) = Inl e \<Longrightarrow>
     e = KeyError \<or> e = IndexError \<or> e = ValueError \<or> e = TypeError \<or> e = OverflowError"
  by (auto simp: read_position_def snd_io sum_bind_def split: sum.splits if_splits
      dest: py_contains_raises py_getitem_raises py_getitem0_raises py_float_raises)

text \<open>
  What leaves \<open>get_iss_position\<close>: \<open>TypeError\<close> or \<open>OverflowError\<close> from reading the
  parsed reply, or an exception of the JSON parser that no clause catches.
\<close>

lemma position_escapes:
  assumes r: "snd (get_iss_position L W) = Inl e"
  shows "e = TypeError \<or> e = OverflowError
    \<or> (\<exists>status. positions_reply W = Reply status (Inl e)
          \<and> \<not> (is_RequestException e \<or> e = KeyError \<or> e = IndexError \<or> is_ValueError e))"
proof (cases "positions_reply W")
  case NoReply
  then show ?thesis using r by (simp add: position_transport_failure)
next
  case (Reply status body)
  show ?thesis
  proof (cases "400 \<le> status \<and> status < 600")
    case True
    then show ?thesis using r Reply by (simp add: position_http_error)
  next
    case ok: False
    show ?thesis
    proof (cases body)
      case (Inl e')
      then show ?thesis using r position_parser_raises [OF Reply [unfolded Inl] ok, of L] Reply
        by (auto split: if_splits)
    next
      case (Inr data)
      then show ?thesis using r position_from_data [OF Reply [unfolded Inr] ok, of L]
        by (auto simp: is_RequestException_def is_ValueError_def split: sum.splits if_splits
            dest!: read_position_raises)
    qed
  qed
qed

lemma position_success:
  assumes "positions_reply W = Reply status (Inr (PDict kvs))" "\<not> (400 \<le> status \<and> status < 600)"
    and "map_of kvs ''error'' = None"
    and "map_of kvs ''positions'' = Some (PList (PDict entry # rest))"
    and "map_of entry ''satlatitude'' = Some v1" "py_float (float_of_str L) v1 = Inr lat"
    and "map_of entry ''satlongitude'' = Some v2" "py_float (float_of_str L) v2 = Inr lng"
    and "map_of entry ''sataltitude'' = Some v3" "py_float (float_of_str L) v3 = Inr alt"
  shows "snd (get_iss_position L W) = Inr (Some lat, Some lng, Some alt)"
  using assms by (simp add: position_from_data read_first_entry sum_bind_def)

lemma position_malformed_string:
  assumes "positions_reply W = Reply status (Inr (PDict kvs))" "\<not> (400 \<le> status \<and> status < 600)"
    and "map_of kvs ''error'' = None"
    and "map_of kvs ''positions'' = Some (PList (PDict entry # rest))"
    and "map_of entry ''satlatitude'' = Some (PStr s)" "float_of_str L s = None"
  shows "snd (get_iss_position L W) = Inr no_position"
  using assms by (simp add: position_from_data read_first_entry sum_bind_def is_ValueError_def)

lemma position_missing_field:
  assumes "positions_reply W = Reply status (Inr (PDict kvs))" "\<not> (400 \<le> status \<and> status < 600)"
    and "map_of kvs ''error'' = None"
    and "map_of kvs ''positions'' = Some (PList (PDict entry # rest))"
    and "map_of entry ''satlatitude'' = None"
  shows "snd (get_iss_position L W) = Inr no_position"
  using assms by (simp add: position_from_data read_first_entry sum_bind_def)

text \<open>
  Claim C5 says that every failure of the position request, malformed numeric fields of the
  first entry among them, gives an absent position and no exception.  The lemmas above show
  that for a transport failure, an error status, a body that is not JSON, an \<open>error\<close> field,
  a missing or empty \<open>positions\<close> field, a missing coordinate and a coordinate that is a
  string but no number, and that a well-formed reply gives the three floats.  A coordinate
  that is \<open>null\<close> makes \<open>float\<close> raise \<open>TypeError\<close>, which no \<open>except\<close> clause
  catches: \<open>get_iss_position\<close> raises.
\<close>
theorem position_null_field_raises:
  "snd (get_iss_position L null_latitude_world) = Inl TypeError"
  by (simp add: get_iss_position_def snd_io http_defs read_position_def sum_bind_def
      null_latitude_world_def quiet_world_def is_RequestException_def is_ValueError_def)

lemma returned_position_all_or_nothing:
  "snd (get_iss_position L W) = Inr p \<Longrightarrow>
     (p = (None, None, None) \<and> \<not> all_present p)
     \<or> ((\<exists>lat lng alt. p = (Some lat, Some lng, Some alt)) \<and> all_present p)"
  by (drule get_iss_position_shape) (auto simp: no_position_def all_present_def)

lemma returned_position_examples:
  "snd (get_iss_position stub_lib quiet_world) = Inr (None, None, None)
   \<and> \<not> all_present (None, None, None)
   \<and> snd (get_iss_position stub_lib position_world) = Inr (Some (21 / 2), Some (- 30), Some 420)
   \<and> all_present (Some (21 / 2), Some (- 30), Some 420)"
proof -
  have a: "snd (get_iss_position stub_lib quiet_world) = Inr (None, None, None)"
    by (simp add: position_transport_failure quiet_world_def no_position_def)
  have b: "snd (get_iss_position stub_lib position_world)
      = Inr (Some (21 / 2), Some (- 30), Some 420)"
    by (rule position_success [where status = 200 and rest = "[]"
          and kvs = "[(''positions'',
             PList [PDict [(''satlatitude'', PFloat (21 / 2)), (''satlongitude'', PFloat (- 30)),
                           (''sataltitude'', PFloat 420)]])]"
          and entry = "[(''satlatitude'', PFloat (21 / 2)), (''satlongitude'', PFloat (- 30)),
                        (''sataltitude'', PFloat 420)]"
          and ?v1.0 = "PFloat (21 / 2)" and ?v2.0 = "PFloat (- 30)" and ?v3.0 = "PFloat 420"])
       (simp_all add: position_world_def quiet_world_def)
  from returned_position_all_or_nothing [OF a] returned_position_all_or_nothing [OF b] a b
  show ?thesis by simp
qed

text \<open>
  Claim C10 says that for every response \<open>get_iss_position\<close> returns a triple that is all
  or nothing, so that the test of \<open>main\<close> that all components are present separates
  success from failure.  Every triple that is returned is all \<open>None\<close> or all floats
  (\<open>returned_position_all_or_nothing\<close>).  At a reply whose latitude is \<open>null\<close> no
  triple is returned: \<open>TypeError\<close> leaves \<open>get_iss_position\<close> and the test of \<open>main\<close>
  is not reached, so that neither the position nor the message that it is unavailable is
  printed.
\<close>

theorem position_check_not_reached:
  "main_position L null_latitude_world =
     ([Print (nl # ''Fetching ISS position...''), Sleep 1, HttpGet Positions,
       Print (''API Response: '' @ str_of L (PDict [(''positions'',
         PList [PDict [(''satlatitude'', PNone), (''satlongitude'', PFloat 0),
                       (''sataltitude'', PFloat 420)]])]))],
      Inl TypeError)"
  by (simp add: main_position_def get_iss_position_def read_position_def io_defs http_defs
      sum_bind_def null_latitude_world_def quiet_world_def is_RequestException_def
      is_ValueError_def)

subsection \<open>Upcoming passes\<close>

text \<open>
  Claim C3.  For a reply to the pass request with a success status and a JSON object that
  has the field \<open>passes\<close>, \<open>get_next_passes\<close> returns the value of that field as it is.
  When that value is the empty array, the empty array is returned, not \<open>None\<close>, and the
  part of \<open>main\<close> that shows the passes prints that no passes were found and ends normally.
  When the object has no field \<open>passes\<close>, \<open>KeyError\<close> leaves \<open>get_next_passes\<close>.
\<close>
theorem next_passes_array:
  "(\<forall>status kvs v.
      visualpasses_reply W = Reply status (Inr (PDict kvs)) \<and> \<not> (400 \<le> status \<and> status < 600)
      \<and> map_of kvs ''passes'' = Some v
      \<longrightarrow> snd (get_next_passes L W lat lng alt days) = Inr (Some v))
   \<and> (\<forall>status kvs.
      visualpasses_reply W = Reply status (Inr (PDict kvs)) \<and> \<not> (400 \<le> status \<and> status < 600)
      \<and> map_of kvs ''passes'' = Some (PList [])
      \<longrightarrow> snd (get_next_passes L W lat lng 0 10) = Inr (Some (PList []))
        \<and> main_passes L W lat lng timezone_str =
            ([Print (nl # ''Fetching upcoming passes...''), HttpGet (VisualPasses lat lng 0 10),
              Print ''No upcoming visible passes found or error fetching pass data''], Inr ()))
   \<and> (\<forall>status kvs.
      visualpasses_reply W = Reply status (Inr (PDict kvs)) \<and> \<not> (400 \<le> status \<and> status < 600)
      \<and> map_of kvs ''passes'' = None
      \<longrightarrow> snd (get_next_passes L W lat lng alt days) = Inl KeyError)"
  by (auto simp: get_next_passes_def main_passes_def snd_io http_defs is_RequestException_def io_defs)

theorem next_passes_array_witness:
  "snd (get_next_passes stub_lib (passes_world [sample_pass]) 0 0 0 10)
     = Inr (Some (PList [sample_pass]))
   \<and> snd (get_next_passes stub_lib (passes_world []) 0 0 0 10) = Inr (Some (PList []))
   \<and> main_passes stub_lib (passes_world []) 0 0 ''UTC'' =
        ([Print (nl # ''Fetching upcoming passes...''), HttpGet (VisualPasses 0 0 0 10),
          Print ''No upcoming visible passes found or error fetching pass data''], Inr ())
   \<and> snd (get_next_passes stub_lib no_passes_field_world 0 0 0 10) = Inl KeyError"
  using next_passes_array [where W = "passes_world [sample_pass]" and L = stub_lib
      and lat = 0 and lng = 0 and alt = 0 and days = 10 and timezone_str = "''UTC''"]
    next_passes_array [where W = "passes_world []" and L = stub_lib
      and lat = 0 and lng = 0 and alt = 0 and days = 10 and timezone_str = "''UTC''"]
    next_passes_array [where W = no_passes_field_world and L = stub_lib
      and lat = 0 and lng = 0 and alt = 0 and days = 10 and timezone_str = "''UTC''"]
  by (simp add: passes_world_def no_passes_field_world_def quiet_world_def)

subsection \<open>Formatting a pass\<close>

lemma format_pass_known_zone:
  assumes "pytz_timezone L timezone_str = Some local_timezone"
    and "map_of kvs ''startUTC'' = Some s" "fromtimestamp_utc L s = Inr s_utc"
    and "map_of kvs ''endUTC'' = Some e" "fromtimestamp_utc L e = Inr e_utc"
    and "map_of kvs ''startAz'' = Some startAz" "get_cardinal_direction startAz = Inr start_dir"
    and "map_of kvs ''maxEl'' = Some maxEl"
    and "map_of kvs ''endAz'' = Some endAz" "get_cardinal_direction endAz = Inr end_dir"
    and "map_of kvs ''duration'' = Some duration"
  shows "format_pass_info L (PDict kvs) timezone_str =
    ([], Inr (''Start: '' @ strftime L (astimezone L s_utc local_timezone) long_format @ [nl]
             @ ''Starting direction: '' @ str_of L startAz @ degree_sign
                 @ '' ('' @ start_dir @ '')'' @ [nl]
             @ ''Maximum Elevation: '' @ str_of L maxEl @ degree_sign @ [nl]
             @ ''Ending direction: '' @ str_of L endAz @ degree_sign
                 @ '' ('' @ end_dir @ '')'' @ [nl]
             @ ''End: '' @ strftime L (astimezone L e_utc local_timezone) long_format @ [nl]
             @ ''Duration: '' @ str_of L duration @ '' seconds'' @ [nl]
             @ ''Viewing guide: Look '' @ start_dir @ '' at ''
                 @ strftime L (astimezone L s_utc local_timezone) short_format @ '', ''
             @ ''the ISS will rise to '' @ str_of L maxEl @ degree_sign @ '' above horizon ''
             @ ''and set '' @ end_dir))"
  using assms by (simp add: format_pass_info_def format_pass_local_def io_defs sum_bind_def Let_def)

lemma format_pass_unknown_zone_raises:
  assumes "pytz_timezone L timezone_str = None" "pytz_exceptions L ''PytzError'' = None"
  shows "format_pass_info L pass_data timezone_str = ([], Inl AttributeError)"
  using assms by (simp add: format_pass_info_def io_defs)

lemma format_pass_unknown_zone_fallback:
  assumes "pytz_timezone L timezone_str = None"
    and "pytz_exceptions L ''PytzError'' = Some cls" "cls UnknownTimeZoneError"
    and "map_of kvs ''startUTC'' = Some s" "fromtimestamp_utc L s = Inr start_time"
    and "map_of kvs ''endUTC'' = Some e" "fromtimestamp_utc L e = Inr end_time"
  shows "format_pass_info L (PDict kvs) timezone_str =
    ([Print (''Timezone error: '' @ str_of_exn L UnknownTimeZoneError @ ''. Falling back to UTC'')],
     Inr (''Start: '' @ strftime L start_time long_format @ [nl]
        @ ''End: '' @ strftime L end_time long_format @ [nl]))"
  using assms by (simp add: format_pass_info_def format_pass_utc_def io_defs sum_bind_def)

text \<open>
  Claim C6 says that \<open>format_pass_info\<close> gives all the lines for a valid time-zone
  identifier and the two UTC lines for an invalid one.  The first half holds
  (\<open>format_pass_known_zone\<close>).  For an identifier that \<open>pytz.timezone\<close> does not know,
  the handler \<open>except pytz.exceptions.PytzError\<close> looks up an attribute that the module
  \<open>pytz.exceptions\<close> does not have, so \<open>AttributeError\<close> is raised and the UTC lines are
  never produced; they would be if the attribute named the class of the library's errors
  (\<open>format_pass_unknown_zone_fallback\<close>).
\<close>
theorem unknown_zone_raises:
  "pytz_exceptions_module ''PytzError'' = None
   \<and> pytz_timezone stub_lib ''Mars/Olympus_Mons'' = None
   \<and> format_pass_info stub_lib sample_pass ''Mars/Olympus_Mons'' = ([], Inl AttributeError)"
  by (simp add: format_pass_info_def io_defs stub_lib_def pytz_exceptions_module_def)

subsection \<open>The whole run\<close>

text \<open>
  Claim C9.  When the credential is absent from the environment, the run consists of one
  printed error message: no prompt, no geocoder call, no HTTP request, no pause.
\<close>
theorem missing_credential:
  "environ_api_key W = None \<Longrightarrow>
     program L W = ([Print ''Error: N2YO API key not found. Please set the N2YO_API_KEY environment variable.''], Inr ())"
  by (simp add: program_def io_emit_def)

theorem missing_credential_witness:
  "environ_api_key (quiet_world\<lparr>environ_api_key := None\<rparr>) = None
   \<and> program stub_lib (quiet_world\<lparr>environ_api_key := None\<rparr>)
       = ([Print ''Error: N2YO API key not found. Please set the N2YO_API_KEY environment variable.''],
          Inr ())"
  using missing_credential [of "quiet_world\<lparr>environ_api_key := None\<rparr>" stub_lib] by simp

text \<open>
  Claim C4 says that with the credential present no failure of a collaborator ends the run
  abnormally, a pass reply without the field \<open>passes\<close> included.  In the run below the
  user gives no city, the position request gets no reply and the pass request is answered
  with status 200 and a JSON object without \<open>passes\<close>: \<open>KeyError\<close> leaves
  \<open>get_next_passes\<close> and \<open>main\<close>, and the process ends with exit status 1.
\<close>
theorem missing_passes_field_crashes:
  "snd (program L no_passes_field_world) = Inl KeyError
   \<and> exit_status (program L no_passes_field_world) = 1"
proof -
  have "get_timezone_from_coordinates no_passes_field_world DEFAULT_latitude DEFAULT_longitude
      = Inr ''America/Los_Angeles''"
    using default_coordinates_in_range
    by (intro timezone_no_match) (simp_all add: no_passes_field_world_def quiet_world_def)
  then show ?thesis
    by (simp add: program_def main_def main_location_def main_position_def main_passes_def
        get_user_location_def py_input_def py_strip_def get_city_coordinates_def
        default_location_def get_iss_position_def get_next_passes_def http_defs snd_io
        exit_status_def no_passes_field_world_def quiet_world_def is_RequestException_def
        all_present_def no_position_def split_def Let_def)
qed

end
